theory Spec2Isabelle
  imports Main "HOL-Library.AList"
begin

section \<open>Fault bus (package fault)\<close>

text \<open>
  The Go type \<^verbatim>\<open>error\<close> is an interface value that may be nil: an argument of type
  \<^verbatim>\<open>error\<close> is an \<open>'e option\<close>, with \<open>None\<close> for nil.  A \<^verbatim>\<open>*Skipped\<close> argument is an
  \<open>'s option\<close> in the same way.  The mutex of the bus serialises the mutating methods, so
  each method is a function from the bus before the call to the bus after it; logging has
  no effect on the bus and is left out.
\<close>

record ('e, 's) Bus =
  failure :: "'e option"
  recoverable :: "'e list"
  skipped :: "'s list"
  failFast :: bool

definition New :: "bool \<Rightarrow> ('e, 's) Bus" where
  "New ff = \<lparr>failure = None, recoverable = [], skipped = [], failFast = ff\<rparr>"

definition FailFast :: "('e, 's) Bus \<Rightarrow> bool" where
  "FailFast e = failFast e"

definition Failure :: "('e, 's) Bus \<Rightarrow> 'e option" where
  "Failure e = failure e"

definition Recovered :: "('e, 's) Bus \<Rightarrow> 'e list" where
  "Recovered e = recoverable e"

definition Skipped :: "('e, 's) Bus \<Rightarrow> 's list" where
  "Skipped e = skipped e"

definition setFailure :: "('e, 's) Bus \<Rightarrow> 'e \<Rightarrow> ('e, 's) Bus" where
  "setFailure e err =
     (if failure e = None then e\<lparr>failure := Some err\<rparr>
      else e\<lparr>recoverable := recoverable e @ [err]\<rparr>)"

definition Fail :: "('e, 's) Bus \<Rightarrow> 'e option \<Rightarrow> ('e, 's) Bus" where
  "Fail e err = (case err of None \<Rightarrow> e | Some x \<Rightarrow> setFailure e x)"

text \<open>\<open>addRecoverableErr\<close> returns the bus after the call and the flag \<open>isFail\<close>.\<close>

definition addRecoverableErr :: "('e, 's) Bus \<Rightarrow> 'e \<Rightarrow> ('e, 's) Bus \<times> bool" where
  "addRecoverableErr e err =
     (if failure e = None \<and> failFast e
      then ((setFailure e err)\<lparr>recoverable := recoverable (setFailure e err) @ [err]\<rparr>, True)
      else (e\<lparr>recoverable := recoverable e @ [err]\<rparr>, False))"

definition logAndAddRecoverable :: "('e, 's) Bus \<Rightarrow> 'e \<Rightarrow> ('e, 's) Bus" where
  "logAndAddRecoverable e err = fst (addRecoverableErr e err)"

definition AddRecoverable :: "('e, 's) Bus \<Rightarrow> 'e option \<Rightarrow> ('e, 's) Bus" where
  "AddRecoverable e err = (case err of None \<Rightarrow> e | Some x \<Rightarrow> logAndAddRecoverable e x)"

definition addSkip :: "('e, 's) Bus \<Rightarrow> 's \<Rightarrow> ('e, 's) Bus" where
  "addSkip e s = e\<lparr>skipped := skipped e @ [s]\<rparr>"

definition logAndAddSkip :: "('e, 's) Bus \<Rightarrow> 's \<Rightarrow> ('e, 's) Bus" where
  "logAndAddSkip e s = addSkip e s"

definition AddSkip :: "('e, 's) Bus \<Rightarrow> 's option \<Rightarrow> ('e, 's) Bus" where
  "AddSkip e s = (case s of None \<Rightarrow> e | Some x \<Rightarrow> logAndAddSkip e x)"

text \<open>
  A local bus holds a pointer to its parent bus and its own \<open>current\<close> error.  A method
  of the local bus is a function on the pair of the local state and the parent bus.
\<close>

record 'e localBus =
  current :: "'e option"

definition Local :: "('e, 's) Bus \<Rightarrow> 'e localBus" where
  "Local e = \<lparr>current = None\<rparr>"

definition local_AddRecoverable ::
  "'e localBus \<times> ('e, 's) Bus \<Rightarrow> 'e option \<Rightarrow> 'e localBus \<times> ('e, 's) Bus" where
  "local_AddRecoverable lb err =
     (case err of
        None \<Rightarrow> lb
      | Some x \<Rightarrow>
          ((if current (fst lb) = None \<and> failFast (snd lb)
            then (fst lb)\<lparr>current := Some x\<rparr> else fst lb),
           logAndAddRecoverable (snd lb) x))"

definition local_AddSkip ::
  "'e localBus \<times> ('e, 's) Bus \<Rightarrow> 's option \<Rightarrow> 'e localBus \<times> ('e, 's) Bus" where
  "local_AddSkip lb s =
     (case s of None \<Rightarrow> lb | Some x \<Rightarrow> (fst lb, logAndAddSkip (snd lb) x))"

definition local_Failure :: "'e localBus \<Rightarrow> 'e option" where
  "local_Failure l = current l"

text \<open>A run of \<open>AddRecoverable\<close> calls, one per element of the list, in order.\<close>

definition AddRecoverable_all :: "('e, 's) Bus \<Rightarrow> 'e option list \<Rightarrow> ('e, 's) Bus" where
  "AddRecoverable_all e errs = foldl AddRecoverable e errs"

section \<open>Item collection streams (packages exchange and groups)\<close>

text \<open>
  An error value built by \<open>clues.Wrap(err, msg)\<close> and \<open>.Label(l)\<close> keeps the error it wraps;
  \<open>WithClues(ctx)\<close> only attaches logging context and is left out.
\<close>

datatype 'b error = Base 'b | Wrap "'b error" string | Label "'b error" string

definition LabelForceNoBackupCreation :: string where
  "LabelForceNoBackupCreation = ''label_forces_no_backup_creations''"

text \<open>
  Of \<open>details.ExchangeInfo\<close> and \<open>details.GroupsInfo\<close> the streams read and write \<open>Size\<close>,
  \<open>Modified\<close> and \<open>ParentPath\<close>.  A time is an integer count of clock units.  The \<open>Item\<close>
  structs of the two packages have the same fields; \<open>item_id\<close> is the field \<open>id\<close>, a nil
  \<open>message\<close> is the empty byte string and a nil \<open>info\<close> is \<open>None\<close>.
\<close>

record ItemInfo =
  Size :: int
  Modified :: int
  ParentPath :: string

record Item =
  item_id :: string
  message :: string
  info :: "ItemInfo option"
  modTime :: int
  deleted :: bool

text \<open>
  \<open>support.CollectionMetrics\<close>, as handed to \<open>support.CreateStatus\<close> and from there to the
  status updater.
\<close>

record CollectionMetrics =
  Objects :: int
  Successes :: int
  Bytes :: int

text \<open>
  What a run of \<open>streamItems\<close> comes to: it panics, it blocks for ever on a channel send,
  or it returns, having closed the stream.
\<close>

datatype 'a outcome = Panic | Blocked | Done 'a

text \<open>
  The state the goroutines of one \<open>streamItems\<close> call share: the records sent on the
  output channel so far (in the order of sending), the two atomic counters (\<open>success\<close> is
  \<open>streamedItems\<close> in package groups), the progress channel (\<open>None\<close> when it is nil, else
  the number of ticks sent), the fault bus, and the number of \<open>time.Now()\<close> readings taken
  so far.  The clock is a function \<open>now\<close> from the index of a reading to the time read.
  The goroutine bodies are run one after the other in the order the loop starts them:
  with a semaphore that has a slot, the semaphore and the wait group only restrict how
  the bodies interleave, and every body touches the shared state by channel sends and
  atomic additions alone.  The readers of the output channel and of the progress channel
  are taken to receive what is sent, so a send on either does not block for ever.  The
  counters are \<open>int64\<close> in the source and unbounded integers here; the success count is
  at most the number of ids, and nothing below is about a byte total out of range.
\<close>

record 'b stream_state =
  stream :: "Item list"
  success :: int
  totalBytes :: int
  colProgress :: "nat option"
  errs :: "('b error, unit) Bus"
  reads :: nat

definition tick :: "'b stream_state \<Rightarrow> 'b stream_state" where
  "tick s = (case colProgress s of None \<Rightarrow> s | Some n \<Rightarrow> s\<lparr>colProgress := Some (Suc n)\<rparr>)"

text \<open>The fields the two collection types have in common.\<close>

record colBase =
  added :: "string list"
  removed :: "string list"
  ItemFetch :: int
  LocationPath :: string
  Folders :: "string list"

text \<open>
  \<open>added\<close> and \<open>removed\<close> are Go maps used as sets; the list is the order in which the
  \<open>range\<close> loop happens to visit the keys, each once, and \<open>len\<close> of the map is its
  length.  \<open>ItemFetch\<close> is \<open>ctrl.Parallelism.ItemFetch\<close>, \<open>LocationPath\<close> the string of the
  location path and \<open>Folders\<close> the folders of the full path.
\<close>

record ('b, 'm) prefetchCollection = colBase +
  user :: string
  ExchangeImmutableIDs :: bool
  GetItem :: "string \<Rightarrow> string \<Rightarrow> bool \<Rightarrow> 'b error + ('m \<times> ItemInfo)"
  Serialize :: "'m \<Rightarrow> string \<Rightarrow> string \<Rightarrow> 'b error + string"

subsection \<open>Package exchange\<close>

definition getItemAndInfo ::
  "('b, 'm) prefetchCollection \<Rightarrow> string \<Rightarrow> string \<Rightarrow> bool \<Rightarrow> string \<Rightarrow>
     'b error + (string \<times> ItemInfo)" where
  "getItemAndInfo col userID i useImmutableIDs parentPath =
     (case GetItem col userID i useImmutableIDs of
        Inl err \<Rightarrow> Inl (Label (Wrap err ''fetching item'') LabelForceNoBackupCreation)
      | Inr (item, nfo) \<Rightarrow>
          (case Serialize col item userID i of
             Inl err \<Rightarrow> Inl (Wrap err ''serializing item'')
           | Inr itemData \<Rightarrow>
               Inr (itemData,
                    nfo\<lparr>Size := (if Size nfo \<le> 0 then int (length itemData) else Size nfo),
                        ParentPath := parentPath\<rparr>)))"

text \<open>The goroutine of the first loop: the tombstone of a removed id.\<close>

definition removed_item :: "(nat \<Rightarrow> int) \<Rightarrow> 'b stream_state \<Rightarrow> string \<Rightarrow> 'b stream_state" where
  "removed_item now s i =
     tick (s\<lparr>stream := stream s @
                [\<lparr>item_id = i, message = [], info = None, modTime = now (reads s), deleted = True\<rparr>],
             success := success s + 1,
             reads := Suc (reads s)\<rparr>)"

text \<open>
  The first loop.  \<open>semaphoreCh <- struct{}{}\<close> comes before the goroutine is started: on
  a channel of capacity 0 nobody receives, and the send blocks for ever.
\<close>

fun removed_loop ::
  "int \<Rightarrow> (nat \<Rightarrow> int) \<Rightarrow> 'b stream_state \<Rightarrow> string list \<Rightarrow> 'b stream_state outcome" where
  "removed_loop cap now s [] = Done s"
| "removed_loop cap now s (i # ids) =
     (if cap = 0 then Blocked else removed_loop cap now (removed_item now s i) ids)"

text \<open>
  The goroutine of the second loop.  \<open>isDel\<close> is \<open>graph.IsErrDeletedInFlight\<close>, which is
  not part of the sources at hand.
\<close>

definition added_item ::
  "('b error \<Rightarrow> bool) \<Rightarrow> ('b, 'm) prefetchCollection \<Rightarrow> 'b stream_state \<Rightarrow> string \<Rightarrow>
     'b stream_state" where
  "added_item isDel col s i =
     (case getItemAndInfo col (user col) i (ExchangeImmutableIDs col) (LocationPath col) of
        Inl err \<Rightarrow>
          (if isDel err then s\<lparr>success := success s + 1\<rparr>
           else s\<lparr>errs := AddRecoverable (errs s)
                     (Some (Label (Wrap err ''fetching item'') LabelForceNoBackupCreation))\<rparr>)
      | Inr (itemData, nfo) \<Rightarrow>
          tick (s\<lparr>stream := stream s @
                     [\<lparr>item_id = i, message = itemData, info = Some nfo,
                       modTime = Modified nfo, deleted = False\<rparr>],
                  success := success s + 1,
                  totalBytes := totalBytes s + Size nfo\<rparr>))"

fun added_loop ::
  "('b error \<Rightarrow> bool) \<Rightarrow> ('b, 'm) prefetchCollection \<Rightarrow> 'b stream_state \<Rightarrow> string list \<Rightarrow>
     'b stream_state outcome" where
  "added_loop isDel col s [] = Done s"
| "added_loop isDel col s (i # ids) =
     (if Failure (errs s) \<noteq> None then Done s
      else if ItemFetch col = 0 then Blocked
      else added_loop isDel col (added_item isDel col s i) ids)"

text \<open>
  The result of a run that returns: the records the closed stream holds and the metrics
  handed to the status updater, with the bus as the run leaves it.
\<close>

record 'b stream_result =
  items :: "Item list"
  status :: CollectionMetrics
  bus :: "('b error, unit) Bus"
  ticks :: "nat option"

definition updateStatus :: "int \<Rightarrow> int \<Rightarrow> int \<Rightarrow> CollectionMetrics" where
  "updateStatus attempted succ bytes = \<lparr>Objects = attempted, Successes = succ, Bytes = bytes\<rparr>"

text \<open>
  The state in which the loops start: an empty stream, the counters at zero, and a
  progress channel only when there is an item at all.
\<close>

definition start_state :: "'a colBase_scheme \<Rightarrow> ('b error, unit) Bus \<Rightarrow> 'b stream_state" where
  "start_state col errs0 =
     \<lparr>stream = [], success = 0, totalBytes = 0,
      colProgress = (if int (length (added col)) + int (length (removed col)) > 0
                     then Some 0 else None),
      errs = errs0, reads = 0\<rparr>"

text \<open>
  \<open>prefetchCollection.streamItems\<close>.  \<open>make(chan struct{}, n)\<close> panics for a negative \<open>n\<close>.
  The deferred function closes the stream and calls \<open>updateStatus\<close> with
  \<open>len(col.added)+len(col.removed)\<close>.
\<close>

definition streamItems ::
  "('b error \<Rightarrow> bool) \<Rightarrow> (nat \<Rightarrow> int) \<Rightarrow> ('b, 'm) prefetchCollection \<Rightarrow> ('b error, unit) Bus \<Rightarrow>
     'b stream_result outcome" where
  "streamItems isDel now col errs0 =
     (if ItemFetch col < 0 then Panic
      else case removed_loop (ItemFetch col) now (start_state col errs0) (removed col) of
             Panic \<Rightarrow> Panic
           | Blocked \<Rightarrow> Blocked
           | Done s1 \<Rightarrow>
               (case added_loop isDel col s1 (added col) of
                  Panic \<Rightarrow> Panic
                | Blocked \<Rightarrow> Blocked
                | Done s2 \<Rightarrow>
                    Done \<lparr>items = stream s2,
                          status = updateStatus
                            (int (length (added col)) + int (length (removed col)))
                            (success s2) (totalBytes s2),
                          bus = errs s2,
                          ticks = colProgress s2\<rparr>))"

subsection \<open>Package groups\<close>

text \<open>
  The getter of a groups collection returns a channel message and its info.  \<open>GetId\<close> is
  the message's id, a pointer that may be nil.  \<open>SerializedContent\<close> stands for the two
  calls \<open>writer.WriteObjectValue\<close> and \<open>writer.GetSerializedContent\<close> of the kiota writer:
  an error of either makes the goroutine log and return.
\<close>

record ('b, 'm) Collection = colBase +
  protectedResource :: string
  GetChannelMessage :: "string \<Rightarrow> string \<Rightarrow> string \<Rightarrow> 'b error + ('m \<times> ItemInfo)"
  GetId :: "'m \<Rightarrow> string option"
  SerializedContent :: "'m \<Rightarrow> 'b error + string"

definition ptr_Val :: "string option \<Rightarrow> string" where
  "ptr_Val p = (case p of None \<Rightarrow> [] | Some v \<Rightarrow> v)"

definition removed_item_g :: "(nat \<Rightarrow> int) \<Rightarrow> 'b stream_state \<Rightarrow> string \<Rightarrow> 'b stream_state" where
  "removed_item_g now s i =
     tick (s\<lparr>stream := stream s @
                [\<lparr>item_id = i, message = [], info = None, modTime = now (reads s), deleted = True\<rparr>],
             success := success s + 1,
             totalBytes := totalBytes s + 0,
             reads := Suc (reads s)\<rparr>)"

fun removed_loop_g ::
  "int \<Rightarrow> (nat \<Rightarrow> int) \<Rightarrow> 'b stream_state \<Rightarrow> string list \<Rightarrow> 'b stream_state outcome" where
  "removed_loop_g cap now s [] = Done s"
| "removed_loop_g cap now s (i # ids) =
     (if cap = 0 then Blocked else removed_loop_g cap now (removed_item_g now s i) ids)"

text \<open>
  What the goroutine of an added id fetches: \<open>flds[len(flds)-1]\<close> panics when the full
  path has no folder; a getter or serializer error is logged and nothing is sent
  (\<open>Done None\<close>); else the record to send.
\<close>

definition fetch_g :: "('b, 'm) Collection \<Rightarrow> string \<Rightarrow> Item option outcome" where
  "fetch_g col i =
     (case Folders col of
        [] \<Rightarrow> Panic
      | f # fs \<Rightarrow>
          (case GetChannelMessage col (protectedResource col) (last (f # fs)) i of
             Inl err \<Rightarrow> Done None
           | Inr (item, nfo) \<Rightarrow>
               (case SerializedContent col item of
                  Inl err \<Rightarrow> Done None
                | Inr content \<Rightarrow>
                    Done (Some \<lparr>item_id = ptr_Val (GetId col item), message = content,
                                info = Some (nfo\<lparr>ParentPath := LocationPath col\<rparr>),
                                modTime = Modified nfo, deleted = False\<rparr>))))"

definition item_Size :: "Item \<Rightarrow> int" where
  "item_Size it = (case info it of None \<Rightarrow> 0 | Some nfo \<Rightarrow> Size nfo)"

definition added_item_g :: "('b, 'm) Collection \<Rightarrow> 'b stream_state \<Rightarrow> string \<Rightarrow> 'b stream_state outcome" where
  "added_item_g col s i =
     (case fetch_g col i of
        Panic \<Rightarrow> Panic
      | Blocked \<Rightarrow> Blocked
      | Done None \<Rightarrow> Done s
      | Done (Some it) \<Rightarrow>
          Done (tick (s\<lparr>stream := stream s @ [it],
                        success := success s + 1,
                        totalBytes := totalBytes s + item_Size it\<rparr>)))"

text \<open>
  The second loop of package groups tests the local bus \<open>el\<close>, to which this function adds
  nothing, and acquires the semaphore after \<open>wg.Add(1)\<close>.
\<close>

fun added_loop_g ::
  "('b, 'm) Collection \<Rightarrow> 'b error localBus \<Rightarrow> 'b stream_state \<Rightarrow> string list \<Rightarrow>
     'b stream_state outcome" where
  "added_loop_g col el s [] = Done s"
| "added_loop_g col el s (i # ids) =
     (if local_Failure el \<noteq> None then Done s
      else if ItemFetch col = 0 then Blocked
      else case added_item_g col s i of
             Panic \<Rightarrow> Panic
           | Blocked \<Rightarrow> Blocked
           | Done s' \<Rightarrow> added_loop_g col el s' ids)"

text \<open>\<open>finishPopulation\<close> closes the stream and hands the metrics to the status updater.\<close>

definition finishPopulation ::
  "('b, 'm) Collection \<Rightarrow> 'b stream_state \<Rightarrow> 'b stream_result" where
  "finishPopulation col s =
     \<lparr>items = stream s,
      status = \<lparr>Objects = int (length (added col)) + int (length (removed col)),
                Successes = success s, Bytes = totalBytes s\<rparr>,
      bus = errs s,
      ticks = colProgress s\<rparr>"

definition streamItems_g ::
  "(nat \<Rightarrow> int) \<Rightarrow> ('b, 'm) Collection \<Rightarrow> ('b error, unit) Bus \<Rightarrow> 'b stream_result outcome" where
  "streamItems_g now col errs0 =
     (if ItemFetch col < 0 then Panic
      else case removed_loop_g (ItemFetch col) now (start_state col errs0) (removed col) of
             Panic \<Rightarrow> Panic
           | Blocked \<Rightarrow> Blocked
           | Done s1 \<Rightarrow>
               (case added_loop_g col (Local errs0) s1 (added col) of
                  Panic \<Rightarrow> Panic
                | Blocked \<Rightarrow> Blocked
                | Done s2 \<Rightarrow> Done (finishPopulation col s2)))"

section \<open>Collision and permission resolver (package drive)\<close>

text \<open>
  Of package drive the sources at hand hold the tests only: \<open>restoreItem\<close> and
  \<open>computePreviousMetadata\<close> are called there, not defined.  The definitions of this
  section follow the specification (section 4.5) and the tables of
  \<open>TestRestoreItem_collisionHandling\<close> and \<open>runComputeParentPermissionsTest\<close>.
\<close>

subsection \<open>Collision policy\<close>

text \<open>
  \<open>control.CollisionPolicy\<close> with the three policies the tests name and one value that is
  none of them; the two sentinel errors of package graph the tests name; an entry of
  \<open>collisionKeyToItemID\<close> as the tests build it.
\<close>

datatype CollisionPolicy = Copy | Replace | Skip | UnknownPolicy

datatype graph_error =
  ErrDeletedInFlight | ErrItemAlreadyExistsConflict | ErrUnknownPolicy | OtherError string

record DriveItemIDType =
  ItemID :: string
  IsFolder :: bool

text \<open>
  The destination writer as the mock \<open>odMock.RestoreHandler\<close> of the test sets it up: the
  error \<open>DeleteItem\<close> answers with and the error \<open>PostItem\<close> answers with (nil for
  success).  The calls made on it are recorded in order.
\<close>

record RestoreHandler =
  DeleteItemErr :: "graph_error option"
  PostItemErr :: "graph_error option"

datatype handler_call = CalledDeleteItemOn string | CalledPostItem string

text \<open>The counters \<open>count.CollisionSkip\<close>, \<open>count.CollisionReplace\<close>, \<open>count.NewItemCreated\<close>.\<close>

record counts =
  CollisionSkip :: int
  CollisionReplace :: int
  NewItemCreated :: int

text \<open>
  What a call of \<open>restoreItem\<close> returns and does: the flag \<open>skip\<close> and the error it
  returns, the calls it made on the destination, and the counters and the fault bus as
  it leaves them.
\<close>

record restore_result =
  r_skip :: bool
  r_err :: "graph_error option"
  r_calls :: "handler_call list"
  r_ctr :: counts
  r_errs :: "(graph_error, unit) Bus"

text \<open>
  Modelled from the spec: \<open>restoreItem\<close> is not in the sources; this is the creation step
  of section 4.5 (create the item at the destination and count it; a failure of the
  creation is a recoverable error of that item).  The counter is \<open>CollisionReplace\<close> when
  the colliding item was deleted first and \<open>NewItemCreated\<close> otherwise, as the table of
  \<open>TestRestoreItem_collisionHandling\<close> has it.
\<close>

definition postItem ::
  "RestoreHandler \<Rightarrow> string \<Rightarrow> bool \<Rightarrow> handler_call list \<Rightarrow> counts \<Rightarrow>
     (graph_error, unit) Bus \<Rightarrow> restore_result" where
  "postItem rh name replaced cs c b =
     (case PostItemErr rh of
        Some e \<Rightarrow>
          \<lparr>r_skip = False, r_err = None, r_calls = cs @ [CalledPostItem name], r_ctr = c,
           r_errs = AddRecoverable b (Some e)\<rparr>
      | None \<Rightarrow>
          \<lparr>r_skip = False, r_err = None, r_calls = cs @ [CalledPostItem name],
           r_ctr = (if replaced then c\<lparr>CollisionReplace := CollisionReplace c + 1\<rparr>
                  else c\<lparr>NewItemCreated := NewItemCreated c + 1\<rparr>),
           r_errs = b\<rparr>)"

text \<open>
  Modelled from the spec: \<open>restoreItem\<close> is not in the sources.  Section 4.5: an unknown
  policy is a fatal error; without a collision the item is created; on a collision \<open>Skip\<close>
  does nothing but record the skip, \<open>Copy\<close> creates a new item, \<open>Replace\<close> deletes the
  existing item and then creates the new one, where a delete that fails with the
  already-deleted sentinel counts as done and any other delete failure is a recoverable
  error of the item.  The table of \<open>TestRestoreItem_collisionHandling\<close> adds that
  \<open>Replace\<close> on a collision with a folder deletes nothing and creates a new item.
\<close>

definition restoreItem ::
  "RestoreHandler \<Rightarrow> CollisionPolicy \<Rightarrow> (string \<rightharpoonup> DriveItemIDType) \<Rightarrow> string \<Rightarrow> counts \<Rightarrow>
     (graph_error, unit) Bus \<Rightarrow> restore_result" where
  "restoreItem rh onCollision collisionKeyToItemID name c b =
     (if onCollision = UnknownPolicy
      then \<lparr>r_skip = False, r_err = Some ErrUnknownPolicy, r_calls = [], r_ctr = c, r_errs = b\<rparr>
      else case collisionKeyToItemID name of
             None \<Rightarrow> postItem rh name False [] c b
           | Some dci \<Rightarrow>
               (if onCollision = Skip
                then \<lparr>r_skip = True, r_err = None, r_calls = [],
                      r_ctr = c\<lparr>CollisionSkip := CollisionSkip c + 1\<rparr>, r_errs = b\<rparr>
                else if onCollision = Replace \<and> \<not> IsFolder dci
                then (case DeleteItemErr rh of
                        None \<Rightarrow> postItem rh name True [CalledDeleteItemOn (ItemID dci)] c b
                      | Some e \<Rightarrow>
                          (if e = ErrDeletedInFlight
                           then postItem rh name True [CalledDeleteItemOn (ItemID dci)] c b
                           else \<lparr>r_skip = False, r_err = None,
                                 r_calls = [CalledDeleteItemOn (ItemID dci)], r_ctr = c,
                                 r_errs = AddRecoverable b (Some e)\<rparr>))
                else postItem rh name False [] c b))"

subsection \<open>Permission metadata\<close>

text \<open>
  The metadata record of section 3: a sharing mode (none, inherited, custom) and the
  explicit permissions.  \<open>Metadata_zero\<close> is the empty record \<open>metadata.Metadata{}\<close> the
  test expects where no ancestor supplies permissions.
\<close>

datatype SharingMode = SharingModeNone | SharingModeInherited | SharingModeCustom

record Permission =
  Roles :: "string list"
  EntityID :: string

record Metadata =
  SharingMode :: SharingMode
  Permissions :: "Permission list"

definition Metadata_zero :: Metadata where
  "Metadata_zero = \<lparr>SharingMode = SharingModeNone, Permissions = []\<rparr>"

text \<open>
  A path is the list of its elements below the drive root, so the root is \<open>[]\<close>, the
  parent of a path is \<open>butlast\<close> of it, and the map of stored metadata is keyed by paths
  (the key of the code is the path's string, which determines the elements).
\<close>

text \<open>
  Modelled from the spec: \<open>computePreviousMetadata\<close> is not in the sources; \<open>walkUp m p\<close> is
  its walk standing at the ancestor \<open>p\<close>.  Section 4.5: walk upward from the immediate
  parent toward the root; the first ancestor whose stored sharing mode is not inherited
  supplies the metadata; if there is none, the root included, the result is the empty
  metadata.
\<close>

function walkUp :: "(string list \<rightharpoonup> Metadata) \<Rightarrow> string list \<Rightarrow> Metadata" where
  "walkUp m p =
     (case m p of
        Some md \<Rightarrow>
          (if SharingMode md \<noteq> SharingModeInherited then md
           else if p = [] then Metadata_zero else walkUp m (butlast p))
      | None \<Rightarrow> (if p = [] then Metadata_zero else walkUp m (butlast p)))"
  by pat_completeness auto
termination
  by (relation "measure (\<lambda>(m, p). length p)") auto

declare walkUp.simps [simp del]

text \<open>
  Modelled from the spec: \<open>computePreviousMetadata\<close> is not in the sources.  The walk
  starts at the immediate parent of the item; an item that is the root has no parent and
  gets the empty metadata.
\<close>

definition computePreviousMetadata :: "string list \<Rightarrow> (string list \<rightharpoonup> Metadata) \<Rightarrow> Metadata" where
  "computePreviousMetadata item m = (if item = [] then Metadata_zero else walkUp m (butlast item))"

text \<open>
  The words of the specification, for comparison with the walk: the ancestors of an
  item, nearest first, down to the root; and an ancestor that defers to the next one,
  because its stored mode is inherited or because it has no stored record.
\<close>

definition ancestors :: "string list \<Rightarrow> string list list" where
  "ancestors item = map (\<lambda>n. take n item) (rev [0..<length item])"

definition defers :: "(string list \<rightharpoonup> Metadata) \<Rightarrow> string list \<Rightarrow> bool" where
  "defers m p = (case m p of None \<Rightarrow> True | Some md \<Rightarrow> SharingMode md = SharingModeInherited)"

section \<open>URL cache (package drive)\<close>

text \<open>
  The URL cache is not in the sources either; its unit test \<open>TestGetItemProperties\<close> and
  \<open>TestNeedsRefresh\<close> are.  The definitions follow the specification (section 4.2) and
  the test.  A time is an integer count of nanoseconds, with 0 for the zero
  \<open>time.Time{}\<close>; a duration is a count of nanoseconds.  The cache's two locks serialise
  the callers, so every call is a function from the cache before it to the cache after
  it, and the current time is an argument of the call.
\<close>

subsection \<open>Data\<close>

text \<open>
  A record of the delta enumeration (section 6): an identifier, a deleted flag, whether
  it is a file, a folder, a package or none of these, and a download URL.
\<close>

datatype item_kind = File | Folder | Package | OtherKind

record DriveItem =
  di_id :: string
  di_kind :: item_kind
  di_url :: string
  di_deleted :: bool

text \<open>
  Modelled from the spec: the test helpers \<open>fileItem\<close> and \<open>driveItem\<close> are called in the
  sources, not defined.  They build a record of the enumeration (section 6) from the
  arguments the test passes; the name and the parent of an item play no part in the
  cache.
\<close>

definition fileItem :: "string \<Rightarrow> string \<Rightarrow> string \<Rightarrow> string \<Rightarrow> string \<Rightarrow> bool \<Rightarrow> DriveItem" where
  "fileItem i name parentName parentID url del =
     \<lparr>di_id = i, di_kind = File, di_url = url, di_deleted = del\<rparr>"

definition driveItem :: "string \<Rightarrow> string \<Rightarrow> string \<Rightarrow> string \<Rightarrow> bool \<Rightarrow> bool \<Rightarrow> bool \<Rightarrow> DriveItem" where
  "driveItem i name parentName parentID isFile isFolder isPackage =
     \<lparr>di_id = i,
      di_kind = (if isFile then File else if isFolder then Folder
                 else if isPackage then Package else OtherKind),
      di_url = [], di_deleted = False\<rparr>"

text \<open>
  One page of the enumeration, as \<open>apiMock.PagerResult\<close> in the test's table: the records
  of the page and the error the page answers with (nil for none).  The enumeration of a
  container is the list of its pages; every refresh walks it from the start.
\<close>

datatype cache_error =
  ErrPage string | ErrFolderItem string | ErrItemNotFound string | ErrInvalidCache

record PagerResult =
  Values :: "DriveItem list"
  PageErr :: "string option"

record itemProps =
  downloadURL :: string
  isDeleted :: bool

record urlCache =
  driveID :: string
  prevDelta :: string
  idToProps :: "(string \<times> itemProps) list"
  lastRefreshTime :: int
  refreshInterval :: int
  deltaQueryCount :: nat
  itemPager :: "PagerResult list"

definition second :: int where
  "second = 1000000000"

text \<open>
  Modelled from the spec: \<open>newURLCache\<close> is not in the sources.  Section 4.2: a non-empty
  container id, a refresh interval that is not below one second and an enumerator
  (\<open>None\<close> is the nil pager) are required; the new cache is empty, with the zero time as
  its last refresh time and no delta query counted.
\<close>

definition newURLCache ::
  "string \<Rightarrow> string \<Rightarrow> int \<Rightarrow> PagerResult list option \<Rightarrow> cache_error + urlCache" where
  "newURLCache drive prev interval pager =
     (case pager of
        None \<Rightarrow> Inl ErrInvalidCache
      | Some pages \<Rightarrow>
          (if drive = [] \<or> interval < second then Inl ErrInvalidCache
           else Inr \<lparr>driveID = drive, prevDelta = prev, idToProps = [], lastRefreshTime = 0,
                     refreshInterval = interval, deltaQueryCount = 0, itemPager = pages\<rparr>))"

text \<open>
  Modelled from the spec: \<open>needsRefresh\<close> is not in the sources.  Sections 4.2 and 8.2:
  true when the cache is empty, and when the current time is past the last refresh time
  by more than the refresh interval.
\<close>

definition needsRefresh :: "urlCache \<Rightarrow> int \<Rightarrow> bool" where
  "needsRefresh uc now = (idToProps uc = [] \<or> now - lastRefreshTime uc > refreshInterval uc)"

subsection \<open>Refresh\<close>

text \<open>
  Modelled from the spec: the entry a file record is cached under (sections 3 and 4.2) is
  its URL and its deleted flag, where a deleted record has the empty URL (the case
  \<open>deleted items\<close> of \<open>TestGetItemProperties\<close> expects \<open>downloadURL: ""\<close> for a deleted
  record that carries a URL).
\<close>

definition propsOf :: "DriveItem \<Rightarrow> itemProps" where
  "propsOf it =
     (if di_deleted it then \<lparr>downloadURL = [], isDeleted = True\<rparr>
      else \<lparr>downloadURL = di_url it, isDeleted = False\<rparr>)"

text \<open>
  Modelled from the spec: \<open>updateCache\<close>, the function that consumes one page of records,
  is not in the sources.  Section 4.2: a file record is stored under its id, overwriting
  an earlier entry.  A record that is not a file is passed over without an entry and
  without an error: this is what the case \<open>folder item\<close> of \<open>TestGetItemProperties\<close>
  asserts of the cache after a page that holds a file and a folder (one entry, a refresh
  time after the start, one delta query), and it is not what section 4.2 says of folder
  records; \<open>updateCache_spec\<close> below follows the words of that section instead.
\<close>

fun updateCache ::
  "(string \<times> itemProps) list \<Rightarrow> DriveItem list \<Rightarrow> cache_error + (string \<times> itemProps) list" where
  "updateCache ps [] = Inr ps"
| "updateCache ps (it # its) =
     (if di_kind it \<noteq> File then updateCache ps its
      else updateCache (AList.update (di_id it) (propsOf it) ps) its)"

text \<open>
  Modelled from the spec: a second collector, for comparison with \<open>updateCache\<close>, that
  follows the words of section 4.2 on folders: a folder record is rejected as an error.
\<close>

fun updateCache_spec ::
  "(string \<times> itemProps) list \<Rightarrow> DriveItem list \<Rightarrow> cache_error + (string \<times> itemProps) list" where
  "updateCache_spec ps [] = Inr ps"
| "updateCache_spec ps (it # its) =
     (if di_kind it = Folder then Inl (ErrFolderItem (di_id it))
      else if di_kind it \<noteq> File then updateCache_spec ps its
      else updateCache_spec (AList.update (di_id it) (propsOf it) ps) its)"

text \<open>
  Modelled from the spec: \<open>collectItems\<close> is called in the sources (with the collector as
  an argument), not defined.  It walks the pages in order and hands the records of each
  page to the collector \<open>upd\<close>; the error of a page or of the collector ends the walk.
\<close>

fun collectItems ::
  "((string \<times> itemProps) list \<Rightarrow> DriveItem list \<Rightarrow> cache_error + (string \<times> itemProps) list) \<Rightarrow>
   PagerResult list \<Rightarrow> (string \<times> itemProps) list \<Rightarrow> cache_error + (string \<times> itemProps) list" where
  "collectItems upd [] ps = Inr ps"
| "collectItems upd (pg # pgs) ps =
     (case PageErr pg of
        Some e \<Rightarrow> Inl (ErrPage e)
      | None \<Rightarrow>
          (case upd ps (Values pg) of
             Inl e \<Rightarrow> Inl e
           | Inr ps' \<Rightarrow> collectItems upd pgs ps'))"

text \<open>
  Modelled from the spec: \<open>refreshCache\<close> is not in the sources.  Section 4.2: a refresh
  walks every page of the enumeration; on an error nothing of the call is committed
  (the cache is left as it was, empty on a first populate) and the error is reported; on
  success the entries are committed, the last refresh time is set to the current time and
  the delta query is counted (the test expects \<open>deltaQueryCount\<close> 1 after a refresh that
  succeeded and 0 after refreshes that failed).
\<close>

definition refreshCache ::
  "((string \<times> itemProps) list \<Rightarrow> DriveItem list \<Rightarrow> cache_error + (string \<times> itemProps) list) \<Rightarrow>
   int \<Rightarrow> urlCache \<Rightarrow> cache_error option \<times> urlCache" where
  "refreshCache upd now uc =
     (case collectItems upd (itemPager uc) (idToProps uc) of
        Inl e \<Rightarrow> (Some e, uc)
      | Inr ps \<Rightarrow>
          (None, uc\<lparr>idToProps := ps, lastRefreshTime := now,
                    deltaQueryCount := Suc (deltaQueryCount uc)\<rparr>))"

text \<open>
  Modelled from the spec: the read of section 4.2, an error for an id without an entry.
\<close>

definition readCache :: "urlCache \<Rightarrow> string \<Rightarrow> cache_error + itemProps" where
  "readCache uc i =
     (case map_of (idToProps uc) i of
        None \<Rightarrow> Inl (ErrItemNotFound i)
      | Some p \<Rightarrow> Inr p)"

text \<open>
  Modelled from the spec: \<open>getItemProperties\<close> is not in the sources.  Section 4.2: if the
  cache needs a refresh, refresh first and report its error; then answer from the cache,
  with an error for an id that is absent.  \<open>getItemProperties_with\<close> takes the collector
  of the refresh as an argument.
\<close>

definition getItemProperties_with ::
  "((string \<times> itemProps) list \<Rightarrow> DriveItem list \<Rightarrow> cache_error + (string \<times> itemProps) list) \<Rightarrow>
   int \<Rightarrow> string \<Rightarrow> urlCache \<Rightarrow> (cache_error + itemProps) \<times> urlCache" where
  "getItemProperties_with upd now i uc =
     (if needsRefresh uc now
      then (case refreshCache upd now uc of
              (Some e, uc') \<Rightarrow> (Inl e, uc')
            | (None, uc') \<Rightarrow> (readCache uc' i, uc'))
      else (readCache uc i, uc))"

text \<open>
  Modelled from the spec: \<open>getItemProperties\<close> of the cache, whose refresh collects with
  \<open>updateCache\<close>.
\<close>

definition getItemProperties ::
  "int \<Rightarrow> string \<Rightarrow> urlCache \<Rightarrow> (cache_error + itemProps) \<times> urlCache" where
  "getItemProperties = getItemProperties_with updateCache"

text \<open>
  The callers of one test case, one after the other: each call is a time and an id; the
  answers are collected in order, with the cache after the last call.
\<close>

fun callers ::
  "((string \<times> itemProps) list \<Rightarrow> DriveItem list \<Rightarrow> cache_error + (string \<times> itemProps) list) \<Rightarrow>
   (int \<times> string) list \<Rightarrow> urlCache \<Rightarrow> (cache_error + itemProps) list \<times> urlCache" where
  "callers upd [] uc = ([], uc)"
| "callers upd ((now, i) # cs) uc =
     (case getItemProperties_with upd now i uc of
        (r, uc') \<Rightarrow> (case callers upd cs uc' of (rs, uc'') \<Rightarrow> (r # rs, uc'')))"

text \<open>The ids that the file records of an enumeration carry, in the order of the pages.\<close>

definition fileIDs :: "PagerResult list \<Rightarrow> string list" where
  "fileIDs pages = map di_id (filter (\<lambda>it. di_kind it = File) (concat (map Values pages)))"

section \<open>Concrete collections, collaborators and test tables\<close>

subsection \<open>Collection streams\<close>

text \<open>A clock that starts at 100 and advances by one unit with every reading.\<close>

definition clock0 :: "nat \<Rightarrow> int" where
  "clock0 k = 100 + int k"

text \<open>
  An exchange collection with two added ids and one removed id, whose getter returns the
  id as the item and whose serializer returns the item as its bytes; \<open>n\<close> is the item-fetch
  parallelism (\<open>control.DefaultOptions()\<close> has 4).
\<close>

definition ex_col :: "int \<Rightarrow> (unit, string) prefetchCollection" where
  "ex_col n =
     \<lparr>added = [''a1'', ''a2''], removed = [''r1''], ItemFetch = n, LocationPath = ''Inbox'',
      Folders = [''inbox-id''], user = ''u'', ExchangeImmutableIDs = False,
      GetItem = (\<lambda>u i b. Inr (i, \<lparr>Size = 0, Modified = 50, ParentPath = []\<rparr>)),
      Serialize = (\<lambda>m u i. Inr m)\<rparr>"

text \<open>
  A groups collection on the path and with the removed ids of the case
  \<open>only removed items\<close> of \<open>TestCollection_streamItems\<close>, and one added id.
\<close>

definition groups_col :: "int \<Rightarrow> (unit, string) Collection" where
  "groups_col n =
     \<lparr>added = [''fisher''], removed = [''princess'', ''poppy'', ''petunia''], ItemFetch = n,
      LocationPath = ''fnords/smarf'', Folders = [''fnords'', ''smarf''],
      protectedResource = ''pr'',
      GetChannelMessage = (\<lambda>pr f i. Inr (i, \<lparr>Size = 7, Modified = 50, ParentPath = []\<rparr>)),
      GetId = (\<lambda>m. Some m),
      SerializedContent = (\<lambda>m. Inr m)\<rparr>"

definition never_deleted :: "unit error \<Rightarrow> bool" where
  "never_deleted e = False"

text \<open>
  A stand-in for \<open>graph.IsErrDeletedInFlight\<close>: it looks through the wrappers for the
  sentinel.  And an exchange collection whose getter answers every fetch with the
  sentinel.
\<close>

fun is_deleted_in_flight :: "string error \<Rightarrow> bool" where
  "is_deleted_in_flight (Base b) = (b = ''deleted in flight'')"
| "is_deleted_in_flight (Wrap e msg) = is_deleted_in_flight e"
| "is_deleted_in_flight (Label e l) = is_deleted_in_flight e"

definition ex_col_gone :: "(string, string) prefetchCollection" where
  "ex_col_gone =
     \<lparr>added = [''a1''], removed = [], ItemFetch = 4, LocationPath = ''Inbox'',
      Folders = [''inbox-id''], user = ''u'', ExchangeImmutableIDs = False,
      GetItem = (\<lambda>u i b. Inl (Base ''deleted in flight'')),
      Serialize = (\<lambda>m u i. Inr m)\<rparr>"

definition state0 :: "string stream_state" where
  "state0 = \<lparr>stream = [], success = 0, totalBytes = 0, colProgress = Some 0,
             errs = New True, reads = 0\<rparr>"

subsection \<open>The case \<open>collision, replace - err already deleted\<close> of \<open>TestRestoreItem_collisionHandling\<close>\<close>

definition DriveItemFileName :: string where
  "DriveItemFileName = ''fnords.txt''"

definition collisionKeys_smarf :: "string \<rightharpoonup> DriveItemIDType" where
  "collisionKeys_smarf = [DriveItemFileName \<mapsto> \<lparr>ItemID = ''smarf'', IsFolder = False\<rparr>]"

definition rh_already_deleted :: RestoreHandler where
  "rh_already_deleted = \<lparr>DeleteItemErr = Some ErrDeletedInFlight, PostItemErr = None\<rparr>"

definition counts0 :: counts where
  "counts0 = \<lparr>CollisionSkip = 0, CollisionReplace = 0, NewItemCreated = 0\<rparr>"

subsection \<open>The table of \<open>runComputeParentPermissionsTest\<close>\<close>

definition test_entry :: "string list" where
  "test_entry = [''level0'', ''level1'', ''level2'', ''entry'']"

definition test_rootEntry :: "string list" where
  "test_rootEntry = [''entry'']"

definition test_level2 :: "string list" where
  "test_level2 = [''level0'', ''level1'', ''level2'']"

definition test_level1 :: "string list" where
  "test_level1 = [''level0'', ''level1'']"

definition test_level0 :: "string list" where
  "test_level0 = [''level0'']"

definition test_md :: Metadata where
  "test_md = \<lparr>SharingMode = SharingModeCustom,
              Permissions = [\<lparr>Roles = [''write''], EntityID = ''user-id''\<rparr>]\<rparr>"

definition test_metadata2 :: Metadata where
  "test_metadata2 = \<lparr>SharingMode = SharingModeCustom,
                     Permissions = [\<lparr>Roles = [''read''], EntityID = ''user-id''\<rparr>]\<rparr>"

definition test_inherited :: Metadata where
  "test_inherited = \<lparr>SharingMode = SharingModeInherited, Permissions = []\<rparr>"

definition perms_direct_parent :: "string list \<rightharpoonup> Metadata" where
  "perms_direct_parent = [test_level2 \<mapsto> test_md]"

definition perms_top_level_parent :: "string list \<rightharpoonup> Metadata" where
  "perms_top_level_parent =
     [test_level2 \<mapsto> test_inherited, test_level1 \<mapsto> test_inherited, test_level0 \<mapsto> test_md]"

definition perms_all_inherited :: "string list \<rightharpoonup> Metadata" where
  "perms_all_inherited =
     [test_level2 \<mapsto> test_inherited, test_level1 \<mapsto> test_inherited,
      test_level0 \<mapsto> test_inherited]"

definition perms_multiple_custom :: "string list \<rightharpoonup> Metadata" where
  "perms_multiple_custom =
     [test_level2 \<mapsto> test_inherited, test_level1 \<mapsto> test_md, test_level0 \<mapsto> test_metadata2]"

subsection \<open>Cases of \<open>TestGetItemProperties\<close>\<close>

text \<open>
  The cache every case of the test builds: \<open>newURLCache(driveID, "", 1*time.Hour, pager)\<close>
  with the pages of the case.
\<close>

definition test_cache :: "PagerResult list \<Rightarrow> urlCache" where
  "test_cache pages =
     \<lparr>driveID = ''drive1'', prevDelta = [], idToProps = [], lastRefreshTime = 0,
      refreshInterval = 3600 * second, deltaQueryCount = 0, itemPager = pages\<rparr>"

definition pages_folder_item :: "PagerResult list" where
  "pages_folder_item =
     [\<lparr>Values = [fileItem ''1'' ''file1'' ''root'' ''root'' ''https://dummy1.com'' False,
                 driveItem ''2'' ''folder2'' ''root'' ''root'' False True False],
       PageErr = None\<rparr>]"

definition pages_delta_query_error :: "PagerResult list" where
  "pages_delta_query_error =
     [\<lparr>Values = [fileItem ''1'' ''file1'' ''root'' ''root'' ''https://dummy1.com'' False],
       PageErr = None\<rparr>,
      \<lparr>Values = [fileItem ''2'' ''file2'' ''root'' ''root'' ''https://dummy2.com'' False],
       PageErr = Some ''delta query error''\<rparr>]"

definition pages_duplicate_items :: "PagerResult list" where
  "pages_duplicate_items =
     [\<lparr>Values = [fileItem ''1'' ''file1'' ''root'' ''root'' ''https://dummy1.com'' False,
                 fileItem ''2'' ''file2'' ''root'' ''root'' ''https://dummy2.com'' False,
                 fileItem ''3'' ''file3'' ''root'' ''root'' ''https://dummy3.com'' False,
                 fileItem ''1'' ''file1'' ''root'' ''root'' ''https://test1.com'' False,
                 fileItem ''2'' ''file2'' ''root'' ''root'' ''https://test2.com'' False],
       PageErr = None\<rparr>]"

definition pages_single_item :: "PagerResult list" where
  "pages_single_item =
     [\<lparr>Values = [fileItem ''1'' ''file1'' ''root'' ''root'' ''https://dummy1.com'' False],
       PageErr = None\<rparr>]"

definition pages_deleted_items :: "PagerResult list" where
  "pages_deleted_items =
     [\<lparr>Values = [fileItem ''1'' ''file1'' ''root'' ''root'' ''https://dummy1.com'' False,
                 fileItem ''2'' ''file2'' ''root'' ''root'' ''https://dummy2.com'' False,
                 fileItem ''1'' ''file1'' ''root'' ''root'' ''https://dummy1.com'' True],
       PageErr = None\<rparr>]"

text \<open>
  The two shapes of \<open>cacheAssert\<close> in the table: after a refresh that succeeded
  (\<open>lastRefreshTime\<close> after the start, \<open>deltaQueryCount\<close> 1 and \<open>n\<close> entries), and for the
  case \<open>multi-page delta query error\<close> (the zero time, no delta query, no entry).
\<close>

definition cacheAssert_refreshed :: "nat \<Rightarrow> urlCache \<Rightarrow> int \<Rightarrow> bool" where
  "cacheAssert_refreshed n uc startTime =
     (startTime < lastRefreshTime uc \<and> deltaQueryCount uc = 1 \<and> length (idToProps uc) = n)"

definition cacheAssert_unpopulated :: "urlCache \<Rightarrow> bool" where
  "cacheAssert_unpopulated uc =
     (lastRefreshTime uc = 0 \<and> deltaQueryCount uc = 0 \<and> length (idToProps uc) = 0)"

section \<open>The fault bus: theorems\<close>

lemma AddRecoverable_keeps_failFast: "failFast (AddRecoverable e err) = failFast e"
  by (simp add: AddRecoverable_def logAndAddRecoverable_def addRecoverableErr_def
      setFailure_def split: option.splits)

lemma AddRecoverable_best_effort:
  "\<not> failFast e \<Longrightarrow> failure (AddRecoverable e err) = failure e"
  by (simp add: AddRecoverable_def logAndAddRecoverable_def addRecoverableErr_def
      split: option.splits)

lemma AddRecoverable_all_best_effort:
  "\<not> failFast e \<Longrightarrow> failure (foldl AddRecoverable e es) = failure e"
proof (induction es arbitrary: e)
  case Nil
  show ?case by simp
next
  case (Cons x xs)
  have "\<not> failFast (AddRecoverable e x)"
    using Cons.prems by (simp add: AddRecoverable_keeps_failFast)
  then have "failure (foldl AddRecoverable (AddRecoverable e x) xs) = failure (AddRecoverable e x)"
    by (rule Cons.IH)
  then show ?case
    using Cons.prems by (simp add: AddRecoverable_best_effort)
qed

text \<open>
  Claim C1.  On a bus with \<open>failFast = true\<close> on which no failure is recorded, a call of
  \<open>AddRecoverable\<close> with a non-nil error appends the error to the recovered list and makes
  \<open>Failure()\<close> non-nil (it is that error).  On a bus made by \<open>New(false)\<close>, \<open>Failure()\<close> is
  nil after any sequence of \<open>AddRecoverable\<close> calls, whatever their arguments.
\<close>

theorem C1_fail_fast_promotion:
  fixes b :: "('e, 's) Bus" and x :: 'e and es :: "'e option list"
  shows
  "(failFast b \<and> Failure b = None \<longrightarrow>
      Recovered (AddRecoverable b (Some x)) = Recovered b @ [x] \<and>
      Failure (AddRecoverable b (Some x)) = Some x \<and>
      Failure (AddRecoverable b (Some x)) \<noteq> None) \<and>
   Failure (AddRecoverable_all (New False :: ('e, 's) Bus) es) = None"
proof -
  have "failure (foldl AddRecoverable (New False :: ('e, 's) Bus) es) = failure (New False :: ('e, 's) Bus)"
    by (rule AddRecoverable_all_best_effort) (simp add: New_def)
  then have "Failure (AddRecoverable_all (New False :: ('e, 's) Bus) es) = None"
    by (simp add: Failure_def AddRecoverable_all_def New_def)
  then show ?thesis
    by (simp add: Failure_def Recovered_def AddRecoverable_def logAndAddRecoverable_def
        addRecoverableErr_def setFailure_def)
qed

theorem C1_fail_fast_promotion_witness:
  "failFast (New True :: (string, string) Bus) \<and> Failure (New True :: (string, string) Bus) = None \<and>
   Recovered (AddRecoverable (New True :: (string, string) Bus) (Some ''e1'')) = [''e1''] \<and>
   Failure (AddRecoverable (New True :: (string, string) Bus) (Some ''e1'')) = Some ''e1'' \<and>
   Failure (AddRecoverable_all (New False :: (string, string) Bus) [Some ''e1'', None, Some ''e2'']) = None"
  using C1_fail_fast_promotion [of "New True :: (string, string) Bus" "''e1''"
      "[Some ''e1'', None, Some ''e2'']"]
  by (simp add: New_def Failure_def Recovered_def)

text \<open>
  Claim C10.  A mutating method of the bus called with a nil argument returns at once:
  \<open>Fail(nil)\<close>, \<open>AddRecoverable(ctx, nil)\<close> and \<open>AddSkip(ctx, nil)\<close> leave the whole bus as
  it was, so no failure is set, nothing is appended to the recovered or skipped list and
  no fail-fast promotion takes place.
\<close>

theorem C10_nil_argument_no_op:
  "Fail b None = b \<and> AddRecoverable b None = b \<and> AddSkip b None = b"
  by (simp add: Fail_def AddRecoverable_def AddSkip_def)

section \<open>The collection streams: theorems\<close>

text \<open>A tick on the progress channel changes nothing else.\<close>

lemma tick_fields [simp]:
  "stream (tick s) = stream s" "success (tick s) = success s" "totalBytes (tick s) = totalBytes s"
  "errs (tick s) = errs s" "reads (tick s) = reads s"
  by (simp_all add: tick_def split: option.splits)

text \<open>
  With a semaphore of capacity other than 0 the first loop runs to its end: it sends one
  tombstone per removed id, in order, each with \<open>deleted = true\<close> and a clock reading as
  its modification time, and it counts each as a success.
\<close>

lemma removed_loop_Done:
  "cap \<noteq> 0 \<Longrightarrow>
   \<exists>s' ts. removed_loop cap now s ids = Done s' \<and> stream s' = stream s @ ts \<and>
     map item_id ts = ids \<and> (\<forall>t\<in>set ts. deleted t \<and> (\<exists>k. modTime t = now k)) \<and>
     success s' = success s + int (length ids) \<and> totalBytes s' = totalBytes s \<and> errs s' = errs s"
proof (induction ids arbitrary: s)
  case Nil
  show ?case by simp
next
  case (Cons i ids)
  let ?s1 = "removed_item now s i"
  let ?t = "\<lparr>item_id = i, message = [], info = None, modTime = now (reads s), deleted = True\<rparr>"
  from Cons.IH [OF Cons.prems, of ?s1] obtain s' ts where
    run: "removed_loop cap now ?s1 ids = Done s'" and
    st: "stream s' = stream ?s1 @ ts" and ids: "map item_id ts = ids" and
    tomb: "\<forall>t\<in>set ts. deleted t \<and> (\<exists>k. modTime t = now k)" and
    su: "success s' = success ?s1 + int (length ids)" and
    tb: "totalBytes s' = totalBytes ?s1" and er: "errs s' = errs ?s1"
    by blast
  have s1: "stream ?s1 = stream s @ [?t]" "success ?s1 = success s + 1"
    "totalBytes ?s1 = totalBytes s" "errs ?s1 = errs s"
    by (simp_all add: removed_item_def)
  have a1: "removed_loop cap now s (i # ids) = Done s'"
    using run Cons.prems by simp
  have a2: "stream s' = stream s @ (?t # ts)"
    using st s1 by simp
  have a3: "map item_id (?t # ts) = i # ids"
    using ids by simp
  have a4: "\<forall>t\<in>set (?t # ts). deleted t \<and> (\<exists>k. modTime t = now k)"
    using tomb by auto
  have a5: "success s' = success s + int (length (i # ids))"
    using su s1 by simp
  have a6: "totalBytes s' = totalBytes s" and a7: "errs s' = errs s"
    using tb er s1 by simp_all
  show ?case
  proof (intro exI conjI)
    show "removed_loop cap now s (i # ids) = Done s'" by (fact a1)
    show "stream s' = stream s @ (?t # ts)" by (fact a2)
    show "map item_id (?t # ts) = i # ids" by (fact a3)
    show "\<forall>t\<in>set (?t # ts). deleted t \<and> (\<exists>k. modTime t = now k)" by (fact a4)
    show "success s' = success s + int (length (i # ids))" by (fact a5)
    show "totalBytes s' = totalBytes s" by (fact a6)
    show "errs s' = errs s" by (fact a7)
  qed
qed

lemma removed_loop_g_Done:
  "cap \<noteq> 0 \<Longrightarrow>
   \<exists>s' ts. removed_loop_g cap now s ids = Done s' \<and> stream s' = stream s @ ts \<and>
     map item_id ts = ids \<and> (\<forall>t\<in>set ts. deleted t \<and> (\<exists>k. modTime t = now k)) \<and>
     success s' = success s + int (length ids) \<and> totalBytes s' = totalBytes s \<and> errs s' = errs s"
proof (induction ids arbitrary: s)
  case Nil
  show ?case by simp
next
  case (Cons i ids)
  let ?s1 = "removed_item_g now s i"
  let ?t = "\<lparr>item_id = i, message = [], info = None, modTime = now (reads s), deleted = True\<rparr>"
  from Cons.IH [OF Cons.prems, of ?s1] obtain s' ts where
    run: "removed_loop_g cap now ?s1 ids = Done s'" and
    st: "stream s' = stream ?s1 @ ts" and ids: "map item_id ts = ids" and
    tomb: "\<forall>t\<in>set ts. deleted t \<and> (\<exists>k. modTime t = now k)" and
    su: "success s' = success ?s1 + int (length ids)" and
    tb: "totalBytes s' = totalBytes ?s1" and er: "errs s' = errs ?s1"
    by blast
  have s1: "stream ?s1 = stream s @ [?t]" "success ?s1 = success s + 1"
    "totalBytes ?s1 = totalBytes s" "errs ?s1 = errs s"
    by (simp_all add: removed_item_g_def)
  have a1: "removed_loop_g cap now s (i # ids) = Done s'"
    using run Cons.prems by simp
  have a2: "stream s' = stream s @ (?t # ts)"
    using st s1 by simp
  have a3: "map item_id (?t # ts) = i # ids"
    using ids by simp
  have a4: "\<forall>t\<in>set (?t # ts). deleted t \<and> (\<exists>k. modTime t = now k)"
    using tomb by auto
  have a5: "success s' = success s + int (length (i # ids))"
    using su s1 by simp
  have a6: "totalBytes s' = totalBytes s" and a7: "errs s' = errs s"
    using tb er s1 by simp_all
  show ?case
  proof (intro exI conjI)
    show "removed_loop_g cap now s (i # ids) = Done s'" by (fact a1)
    show "stream s' = stream s @ (?t # ts)" by (fact a2)
    show "map item_id (?t # ts) = i # ids" by (fact a3)
    show "\<forall>t\<in>set (?t # ts). deleted t \<and> (\<exists>k. modTime t = now k)" by (fact a4)
    show "success s' = success s + int (length (i # ids))" by (fact a5)
    show "totalBytes s' = totalBytes s" by (fact a6)
    show "errs s' = errs s" by (fact a7)
  qed
qed

text \<open>
  The second loop, when no failure is recorded and every fetch succeeds: one record per
  added id, and the bus is left as it was.
\<close>

lemma added_item_ok:
  assumes "getItemAndInfo col (user col) i (ExchangeImmutableIDs col) (LocationPath col) = Inr (d, n)"
  shows "stream (added_item isDel col s i) =
           stream s @ [\<lparr>item_id = i, message = d, info = Some n, modTime = Modified n, deleted = False\<rparr>]"
    and "success (added_item isDel col s i) = success s + 1"
    and "errs (added_item isDel col s i) = errs s"
  using assms by (simp_all add: added_item_def)

lemma added_loop_Done:
  assumes "ItemFetch col \<noteq> 0"
    and "Failure (errs s) = None"
    and "\<forall>i\<in>set ids. \<exists>r. getItemAndInfo col (user col) i (ExchangeImmutableIDs col) (LocationPath col) = Inr r"
  shows "\<exists>s' ts. added_loop isDel col s ids = Done s' \<and> stream s' = stream s @ ts \<and>
     map item_id ts = ids \<and> (\<forall>t\<in>set ts. \<not> deleted t) \<and>
     success s' = success s + int (length ids) \<and> errs s' = errs s"
  using assms
proof (induction ids arbitrary: s)
  case Nil
  show ?case by simp
next
  case (Cons i ids)
  from Cons.prems(3) obtain d n where
    f: "getItemAndInfo col (user col) i (ExchangeImmutableIDs col) (LocationPath col) = Inr (d, n)"
    by fastforce
  let ?s1 = "added_item isDel col s i"
  let ?t = "\<lparr>item_id = i, message = d, info = Some n, modTime = Modified n, deleted = False\<rparr>"
  note s1 = added_item_ok [OF f, of isDel s]
  have "Failure (errs ?s1) = None"
    using Cons.prems(2) s1 by simp
  moreover have "\<forall>i\<in>set ids. \<exists>r. getItemAndInfo col (user col) i (ExchangeImmutableIDs col) (LocationPath col) = Inr r"
    using Cons.prems(3) by simp
  ultimately obtain s' ts where
    run: "added_loop isDel col ?s1 ids = Done s'" and
    st: "stream s' = stream ?s1 @ ts" and ids: "map item_id ts = ids" and
    nd: "\<forall>t\<in>set ts. \<not> deleted t" and
    su: "success s' = success ?s1 + int (length ids)" and er: "errs s' = errs ?s1"
    using Cons.IH [OF Cons.prems(1), of ?s1] by blast
  show ?case
  proof (intro exI conjI)
    show "added_loop isDel col s (i # ids) = Done s'"
      using run Cons.prems(1,2) by simp
    show "stream s' = stream s @ (?t # ts)"
      using st s1 by simp
    show "map item_id (?t # ts) = i # ids"
      using ids by simp
    show "\<forall>t\<in>set (?t # ts). \<not> deleted t"
      using nd by simp
    show "success s' = success s + int (length (i # ids))"
      using su s1 by simp
    show "errs s' = errs s"
      using er s1 by simp
  qed
qed

lemma added_item_g_ok:
  assumes "fetch_g col i = Done (Some it)"
  shows "\<exists>s1. added_item_g col s i = Done s1 \<and> stream s1 = stream s @ [it] \<and>
           success s1 = success s + 1 \<and> errs s1 = errs s"
  using assms by (simp add: added_item_g_def)

lemma added_loop_g_Done:
  assumes "ItemFetch col \<noteq> 0"
    and "local_Failure el = None"
    and "\<forall>i\<in>set ids. \<exists>it. fetch_g col i = Done (Some it)"
  shows "\<exists>s' ts. added_loop_g col el s ids = Done s' \<and> stream s' = stream s @ ts \<and>
     length ts = length ids \<and>
     success s' = success s + int (length ids) \<and> errs s' = errs s"
  using assms
proof (induction ids arbitrary: s)
  case Nil
  show ?case by simp
next
  case (Cons i ids)
  from Cons.prems(3) obtain it where f: "fetch_g col i = Done (Some it)"
    by fastforce
  from added_item_g_ok [OF f, of s] obtain s1 where
    s1: "added_item_g col s i = Done s1" "stream s1 = stream s @ [it]"
      "success s1 = success s + 1" "errs s1 = errs s"
    by blast
  have "\<forall>i\<in>set ids. \<exists>it. fetch_g col i = Done (Some it)"
    using Cons.prems(3) by simp
  then obtain s' ts where
    run: "added_loop_g col el s1 ids = Done s'" and
    st: "stream s' = stream s1 @ ts" and len: "length ts = length ids" and
    su: "success s' = success s1 + int (length ids)" and er: "errs s' = errs s1"
    using Cons.IH [OF Cons.prems(1,2), of s1] by blast
  show ?case
  proof (intro exI conjI)
    show "added_loop_g col el s (i # ids) = Done s'"
      using run s1(1) Cons.prems(1,2) by simp
    show "stream s' = stream s @ (it # ts)"
      using st s1 by simp
    show "length (it # ts) = length (i # ids)"
      using len by simp
    show "success s' = success s + int (length (i # ids))"
      using su s1 by simp
    show "errs s' = errs s"
      using er s1 by simp
  qed
qed


text \<open>The two streams as a whole.\<close>

lemma exchange_stream_complete:
  fixes col :: "('b, 'm) prefetchCollection"
  assumes clock: "\<forall>k. start \<le> now k"
    and cap: "1 \<le> ItemFetch col"
    and nofail: "Failure errs0 = None"
    and ok: "\<forall>i\<in>set (added col). \<exists>r.
              getItemAndInfo col (user col) i (ExchangeImmutableIDs col) (LocationPath col) = Inr r"
  shows "\<exists>r. streamItems isDel now col errs0 = Done r \<and>
           length (items r) = length (added col) + length (removed col) \<and>
           map item_id (take (length (removed col)) (items r)) = removed col \<and>
           (\<forall>t\<in>set (take (length (removed col)) (items r)). deleted t \<and> start \<le> modTime t) \<and>
           (set (added col) \<inter> set (removed col) = {} \<longrightarrow>
              (\<forall>t\<in>set (items r). item_id t \<in> set (removed col) \<longrightarrow>
                  deleted t \<and> start \<le> modTime t)) \<and>
           Objects (status r) = int (length (added col)) + int (length (removed col))"
proof -
  let ?s0 = "start_state col errs0"
  have cap0: "ItemFetch col \<noteq> 0" and capn: "\<not> ItemFetch col < 0"
    using cap by simp_all
  from removed_loop_Done [OF cap0, of now ?s0 "removed col"] obtain s1 ts where
    r1: "removed_loop (ItemFetch col) now ?s0 (removed col) = Done s1" and
    st1: "stream s1 = stream ?s0 @ ts" and ids1: "map item_id ts = removed col" and
    tomb: "\<forall>t\<in>set ts. deleted t \<and> (\<exists>k. modTime t = now k)" and
    er1: "errs s1 = errs ?s0"
    by blast
  have "Failure (errs s1) = None"
    using er1 nofail by (simp add: start_state_def)
  from added_loop_Done [OF cap0 this ok, of isDel] obtain s2 us where
    r2: "added_loop isDel col s1 (added col) = Done s2" and
    st2: "stream s2 = stream s1 @ us" and ids2: "map item_id us = added col"
    by blast
  let ?r = "\<lparr>items = stream s2,
             status = updateStatus (int (length (added col)) + int (length (removed col)))
                        (success s2) (totalBytes s2),
             bus = errs s2, ticks = colProgress s2\<rparr>"
  have lts: "length ts = length (removed col)"
    using ids1 by (metis length_map)
  have lus: "length us = length (added col)"
    using ids2 by (metis length_map)
  have all: "stream s2 = ts @ us"
    using st1 st2 by (simp add: start_state_def)
  have run: "streamItems isDel now col errs0 = Done ?r"
    using capn r1 r2 by (simp add: streamItems_def)
  have pre: "take (length (removed col)) (stream s2) = ts"
    using all lts by simp
  have late: "\<forall>t\<in>set ts. deleted t \<and> start \<le> modTime t"
    using tomb clock by auto
  have byid: "set (added col) \<inter> set (removed col) = {} \<longrightarrow>
      (\<forall>t\<in>set (stream s2). item_id t \<in> set (removed col) \<longrightarrow> deleted t \<and> start \<le> modTime t)"
  proof (intro impI ballI)
    fix t
    assume dis: "set (added col) \<inter> set (removed col) = {}"
      and t: "t \<in> set (stream s2)" and rem: "item_id t \<in> set (removed col)"
    have "t \<notin> set us"
    proof
      assume "t \<in> set us"
      then have "item_id t \<in> set (map item_id us)" by simp
      then have "item_id t \<in> set (added col)" using ids2 by simp
      then show False using dis rem by blast
    qed
    then have "t \<in> set ts" using t all by simp
    then show "deleted t \<and> start \<le> modTime t" using late by blast
  qed
  show ?thesis
  proof (intro exI conjI)
    show "streamItems isDel now col errs0 = Done ?r" by (fact run)
    show "length (items ?r) = length (added col) + length (removed col)"
      using all lts lus by simp
    show "map item_id (take (length (removed col)) (items ?r)) = removed col"
      using pre ids1 by simp
    show "\<forall>t\<in>set (take (length (removed col)) (items ?r)). deleted t \<and> start \<le> modTime t"
      using pre late by simp
    show "set (added col) \<inter> set (removed col) = {} \<longrightarrow>
            (\<forall>t\<in>set (items ?r). item_id t \<in> set (removed col) \<longrightarrow>
                deleted t \<and> start \<le> modTime t)"
      using byid by simp
    show "Objects (status ?r) = int (length (added col)) + int (length (removed col))"
      by (simp add: updateStatus_def)
  qed
qed

lemma groups_stream_complete:
  fixes col :: "('b, 'm) Collection"
  assumes clock: "\<forall>k. start \<le> now k"
    and cap: "1 \<le> ItemFetch col"
    and ok: "\<forall>i\<in>set (added col). \<exists>it. fetch_g col i = Done (Some it)"
  shows "\<exists>r. streamItems_g now col errs0 = Done r \<and>
           length (items r) = length (added col) + length (removed col) \<and>
           map item_id (take (length (removed col)) (items r)) = removed col \<and>
           (\<forall>t\<in>set (take (length (removed col)) (items r)). deleted t \<and> start \<le> modTime t) \<and>
           Objects (status r) = int (length (added col)) + int (length (removed col))"
proof -
  let ?s0 = "start_state col errs0"
  have cap0: "ItemFetch col \<noteq> 0" and capn: "\<not> ItemFetch col < 0"
    using cap by simp_all
  from removed_loop_g_Done [OF cap0, of now ?s0 "removed col"] obtain s1 ts where
    r1: "removed_loop_g (ItemFetch col) now ?s0 (removed col) = Done s1" and
    st1: "stream s1 = stream ?s0 @ ts" and ids1: "map item_id ts = removed col" and
    tomb: "\<forall>t\<in>set ts. deleted t \<and> (\<exists>k. modTime t = now k)"
    by blast
  have el: "local_Failure (Local errs0) = None"
    by (simp add: local_Failure_def Local_def)
  from added_loop_g_Done [OF cap0 el ok, of s1] obtain s2 us where
    r2: "added_loop_g col (Local errs0) s1 (added col) = Done s2" and
    st2: "stream s2 = stream s1 @ us" and lus: "length us = length (added col)"
    by blast
  let ?r = "finishPopulation col s2"
  have lts: "length ts = length (removed col)"
    using ids1 by (metis length_map)
  have all: "stream s2 = ts @ us"
    using st1 st2 by (simp add: start_state_def)
  have run: "streamItems_g now col errs0 = Done ?r"
    using capn r1 r2 by (simp add: streamItems_g_def)
  have pre: "take (length (removed col)) (stream s2) = ts"
    using all lts by simp
  have late: "\<forall>t\<in>set ts. deleted t \<and> start \<le> modTime t"
    using tomb clock by auto
  show ?thesis
  proof (intro exI conjI)
    show "streamItems_g now col errs0 = Done ?r" by (fact run)
    show "length (items ?r) = length (added col) + length (removed col)"
      using all lts lus by (simp add: finishPopulation_def)
    show "map item_id (take (length (removed col)) (items ?r)) = removed col"
      using pre ids1 by (simp add: finishPopulation_def)
    show "\<forall>t\<in>set (take (length (removed col)) (items ?r)). deleted t \<and> start \<le> modTime t"
      using pre late by (simp add: finishPopulation_def)
    show "Objects (status ?r) = int (length (added col)) + int (length (removed col))"
      by (simp add: finishPopulation_def)
  qed
qed

lemma ex_col_fetch:
  "getItemAndInfo (ex_col n) (user (ex_col n)) i (ExchangeImmutableIDs (ex_col n))
     (LocationPath (ex_col n)) =
   Inr (i, \<lparr>Size = int (length i), Modified = 50, ParentPath = ''Inbox''\<rparr>)"
  by (simp add: getItemAndInfo_def ex_col_def)

text \<open>
  Claim C2, as amended.  Take a collection with \<open>A\<close> added and \<open>R\<close> removed ids whose
  item-fetch parallelism is at least 1, a bus with no failure recorded and collaborators
  whose fetch and serialization succeed for every added id, and a clock that never reads
  earlier than \<open>start\<close>.  Then \<open>streamItems\<close> returns; the closed stream holds exactly
  \<open>A + R\<close> records; the records sent for the removed ids (the first \<open>R\<close> records in the
  order of this model, one per removed id) have \<open>deleted = true\<close> and a modification
  time at or after \<open>start\<close>; and the metrics handed to the status updater have
  \<open>Objects = A + R\<close>.  In package exchange, where a record carries the id it was asked
  for, every record whose id is a removed id is such a tombstone when no id is both added
  and removed.  This holds of \<open>prefetchCollection.streamItems\<close> of package exchange
  and of \<open>Collection.streamItems\<close> with \<open>finishPopulation\<close> of package groups, where the
  loop tests the local bus and so needs no hypothesis on the bus.
\<close>

theorem C2_stream_completeness:
  fixes col :: "('b, 'm) prefetchCollection" and gcol :: "('c, 'n) Collection"
  assumes "\<forall>k. start \<le> now k"
  shows
    "(1 \<le> ItemFetch col \<and> Failure errs0 = None \<and>
      (\<forall>i\<in>set (added col). \<exists>r.
          getItemAndInfo col (user col) i (ExchangeImmutableIDs col) (LocationPath col) = Inr r) \<longrightarrow>
      (\<exists>r. streamItems isDel now col errs0 = Done r \<and>
           length (items r) = length (added col) + length (removed col) \<and>
           map item_id (take (length (removed col)) (items r)) = removed col \<and>
           (\<forall>t\<in>set (take (length (removed col)) (items r)). deleted t \<and> start \<le> modTime t) \<and>
           (set (added col) \<inter> set (removed col) = {} \<longrightarrow>
              (\<forall>t\<in>set (items r). item_id t \<in> set (removed col) \<longrightarrow>
                  deleted t \<and> start \<le> modTime t)) \<and>
           Objects (status r) = int (length (added col)) + int (length (removed col)))) \<and>
     (1 \<le> ItemFetch gcol \<and> (\<forall>i\<in>set (added gcol). \<exists>it. fetch_g gcol i = Done (Some it)) \<longrightarrow>
      (\<exists>r. streamItems_g now gcol gerrs0 = Done r \<and>
           length (items r) = length (added gcol) + length (removed gcol) \<and>
           map item_id (take (length (removed gcol)) (items r)) = removed gcol \<and>
           (\<forall>t\<in>set (take (length (removed gcol)) (items r)). deleted t \<and> start \<le> modTime t) \<and>
           Objects (status r) = int (length (added gcol)) + int (length (removed gcol))))"
proof (intro conjI impI)
  assume "1 \<le> ItemFetch col \<and> Failure errs0 = None \<and>
      (\<forall>i\<in>set (added col). \<exists>r.
          getItemAndInfo col (user col) i (ExchangeImmutableIDs col) (LocationPath col) = Inr r)"
  then show "\<exists>r. streamItems isDel now col errs0 = Done r \<and>
           length (items r) = length (added col) + length (removed col) \<and>
           map item_id (take (length (removed col)) (items r)) = removed col \<and>
           (\<forall>t\<in>set (take (length (removed col)) (items r)). deleted t \<and> start \<le> modTime t) \<and>
           (set (added col) \<inter> set (removed col) = {} \<longrightarrow>
              (\<forall>t\<in>set (items r). item_id t \<in> set (removed col) \<longrightarrow>
                  deleted t \<and> start \<le> modTime t)) \<and>
           Objects (status r) = int (length (added col)) + int (length (removed col))"
    using exchange_stream_complete [OF assms, of col errs0 isDel] by blast
next
  assume "1 \<le> ItemFetch gcol \<and> (\<forall>i\<in>set (added gcol). \<exists>it. fetch_g gcol i = Done (Some it))"
  then show "\<exists>r. streamItems_g now gcol gerrs0 = Done r \<and>
           length (items r) = length (added gcol) + length (removed gcol) \<and>
           map item_id (take (length (removed gcol)) (items r)) = removed gcol \<and>
           (\<forall>t\<in>set (take (length (removed gcol)) (items r)). deleted t \<and> start \<le> modTime t) \<and>
           Objects (status r) = int (length (added gcol)) + int (length (removed gcol))"
    using groups_stream_complete [OF assms, of gcol gerrs0] by blast
qed

theorem C2_stream_completeness_witness:
  "(\<forall>k. 100 \<le> clock0 k) \<and>
   (\<exists>r. streamItems never_deleted clock0 (ex_col 4) (New True) = Done r \<and>
        length (items r) = 3 \<and> map item_id (take 1 (items r)) = [''r1''] \<and>
        (\<forall>t\<in>set (take 1 (items r)). deleted t \<and> 100 \<le> modTime t) \<and>
        (\<forall>t\<in>set (items r). item_id t = ''r1'' \<longrightarrow> deleted t \<and> 100 \<le> modTime t) \<and>
        Objects (status r) = 3) \<and>
   (\<exists>r. streamItems_g clock0 (groups_col 4) (New True :: (unit error, unit) Bus) = Done r \<and>
        length (items r) = 4 \<and>
        map item_id (take 3 (items r)) = [''princess'', ''poppy'', ''petunia''] \<and>
        (\<forall>t\<in>set (take 3 (items r)). deleted t \<and> 100 \<le> modTime t) \<and>
        Objects (status r) = 4)"
proof -
  have c: "\<forall>k. 100 \<le> clock0 k"
    by (simp add: clock0_def)
  have g: "\<forall>i\<in>set (added (groups_col 4)). \<exists>it. fetch_g (groups_col 4) i = Done (Some it)"
    by (simp add: fetch_g_def groups_col_def)
  have e: "\<forall>i\<in>set (added (ex_col 4)). \<exists>r.
          getItemAndInfo (ex_col 4) (user (ex_col 4)) i (ExchangeImmutableIDs (ex_col 4))
            (LocationPath (ex_col 4)) = Inr r"
    by (simp add: ex_col_fetch)
  have f: "Failure (New True :: (unit error, unit) Bus) = None"
    by (simp add: Failure_def New_def)
  have n: "1 \<le> ItemFetch (ex_col 4)" "1 \<le> ItemFetch (groups_col 4)"
    "added (ex_col 4) = [''a1'', ''a2'']" "removed (ex_col 4) = [''r1'']"
    "added (groups_col 4) = [''fisher'']" "removed (groups_col 4) = [''princess'', ''poppy'', ''petunia'']"
    by (simp_all add: ex_col_def groups_col_def)
  show ?thesis
    using C2_stream_completeness [OF c, of "ex_col 4" "New True" never_deleted "groups_col 4" "New True"]
      c e f g n
    by (simp add: eval_nat_numeral)
qed

text \<open>
  Claim C2 as stated fails for an item-fetch parallelism of 0: the semaphore channel has
  no capacity, the first \<open>semaphoreCh <- struct{}{}\<close> blocks for ever, and the stream is
  never closed, although one id (three ids in the groups collection) is removed, no
  failure is recorded and every fetch would succeed.
\<close>

theorem C2_blocked_counterexample:
  "streamItems never_deleted clock0 (ex_col 0) (New True) = Blocked \<and>
   streamItems_g clock0 (groups_col 0) (New True :: (unit error, unit) Bus) = Blocked"
  by (simp add: streamItems_def streamItems_g_def ex_col_def groups_col_def)
section \<open>Benign races, and the permission walk: theorems\<close>

text \<open>
  Claim C8.  The two benign races count as successes.  In \<open>prefetchCollection.streamItems\<close>
  a fetch whose error \<open>graph.IsErrDeletedInFlight\<close> recognises adds 1 to the success
  count, leaves the fault bus as it was (so nothing is added to its recovered list) and
  sends no record.  In \<open>restoreItem\<close> under \<open>Replace\<close>, on a collision with a file, a
  delete that answers with the already-deleted sentinel is followed by the creation of
  the new item: the delete and the post are called in this order, the replace count goes
  up by 1 and the new-item count stays, no error is returned and none is added to the
  bus.
\<close>

theorem C8_benign_races:
  fixes col :: "('b, 'm) prefetchCollection"
  shows
  "(getItemAndInfo col (user col) i (ExchangeImmutableIDs col) (LocationPath col) = Inl e \<and> isDel e \<longrightarrow>
      success (added_item isDel col s i) = success s + 1 \<and>
      errs (added_item isDel col s i) = errs s \<and>
      Recovered (errs (added_item isDel col s i)) = Recovered (errs s) \<and>
      stream (added_item isDel col s i) = stream s) \<and>
   (collisionKeyToItemID name = Some dci \<and> \<not> IsFolder dci \<and>
    DeleteItemErr rh = Some ErrDeletedInFlight \<and> PostItemErr rh = None \<longrightarrow>
      r_calls (restoreItem rh Replace collisionKeyToItemID name c b) =
        [CalledDeleteItemOn (ItemID dci), CalledPostItem name] \<and>
      CollisionReplace (r_ctr (restoreItem rh Replace collisionKeyToItemID name c b)) =
        CollisionReplace c + 1 \<and>
      NewItemCreated (r_ctr (restoreItem rh Replace collisionKeyToItemID name c b)) =
        NewItemCreated c \<and>
      r_err (restoreItem rh Replace collisionKeyToItemID name c b) = None \<and>
      \<not> r_skip (restoreItem rh Replace collisionKeyToItemID name c b) \<and>
      r_errs (restoreItem rh Replace collisionKeyToItemID name c b) = b)"
  by (simp add: added_item_def restoreItem_def postItem_def)

lemma ex_col_gone_fetch:
  "getItemAndInfo ex_col_gone (user ex_col_gone) ''a1'' (ExchangeImmutableIDs ex_col_gone)
     (LocationPath ex_col_gone) =
   Inl (Label (Wrap (Base ''deleted in flight'') ''fetching item'') LabelForceNoBackupCreation)"
  by (simp add: getItemAndInfo_def ex_col_gone_def)

theorem C8_benign_races_witness:
  "success (added_item is_deleted_in_flight ex_col_gone state0 ''a1'') = 1 \<and>
   Recovered (errs (added_item is_deleted_in_flight ex_col_gone state0 ''a1'')) = [] \<and>
   stream (added_item is_deleted_in_flight ex_col_gone state0 ''a1'') = [] \<and>
   r_calls (restoreItem rh_already_deleted Replace collisionKeys_smarf DriveItemFileName counts0
              (New True)) =
     [CalledDeleteItemOn ''smarf'', CalledPostItem DriveItemFileName] \<and>
   CollisionReplace (r_ctr (restoreItem rh_already_deleted Replace collisionKeys_smarf
                              DriveItemFileName counts0 (New True))) = 1 \<and>
   NewItemCreated (r_ctr (restoreItem rh_already_deleted Replace collisionKeys_smarf
                            DriveItemFileName counts0 (New True))) = 0 \<and>
   r_err (restoreItem rh_already_deleted Replace collisionKeys_smarf DriveItemFileName counts0
            (New True)) = None"
proof -
  have d: "is_deleted_in_flight
             (Label (Wrap (Base ''deleted in flight'') ''fetching item'') LabelForceNoBackupCreation)"
    by simp
  have k: "collisionKeys_smarf DriveItemFileName = Some \<lparr>ItemID = ''smarf'', IsFolder = False\<rparr>"
    by (simp add: collisionKeys_smarf_def)
  have h: "DeleteItemErr rh_already_deleted = Some ErrDeletedInFlight"
    "PostItemErr rh_already_deleted = None"
    by (simp_all add: rh_already_deleted_def)
  have s: "success state0 = 0" "stream state0 = []" "Recovered (errs state0) = []"
    by (simp_all add: state0_def Recovered_def New_def)
  have c: "CollisionReplace counts0 = 0" "NewItemCreated counts0 = 0"
    by (simp_all add: counts0_def)
  show ?thesis
    using C8_benign_races [of ex_col_gone "''a1''"
        "Label (Wrap (Base ''deleted in flight'') ''fetching item'') LabelForceNoBackupCreation"
        is_deleted_in_flight state0 collisionKeys_smarf DriveItemFileName
        "\<lparr>ItemID = ''smarf'', IsFolder = False\<rparr>" rh_already_deleted counts0 "New True"]
      ex_col_gone_fetch d k h s c
    by simp
qed

subsection \<open>The permission walk\<close>

lemma ancestors_snoc: "ancestors (xs @ [x]) = xs # ancestors xs"
proof -
  have "map (\<lambda>n. take n (xs @ [x])) (rev [0..<length xs]) = map (\<lambda>n. take n xs) (rev [0..<length xs])"
    by (rule map_cong) auto
  then show ?thesis
    by (simp add: ancestors_def)
qed

text \<open>The walk that stands at \<open>p\<close> finds the first of \<open>p\<close> and its ancestors that does not defer.\<close>

lemma walkUp_find:
  "walkUp m p =
     (case find (\<lambda>q. \<not> defers m q) (p # ancestors p) of
        None \<Rightarrow> Metadata_zero
      | Some q \<Rightarrow> the (m q))"
proof (induction p rule: rev_induct)
  case Nil
  show ?case
    by (subst walkUp.simps) (simp add: ancestors_def defers_def split: option.splits)
next
  case (snoc x xs)
  show ?case
    by (subst walkUp.simps) (simp add: ancestors_snoc snoc.IH defers_def split: option.splits)
qed

lemma computePreviousMetadata_find:
  "computePreviousMetadata item m =
     (case find (\<lambda>q. \<not> defers m q) (ancestors item) of
        None \<Rightarrow> Metadata_zero
      | Some q \<Rightarrow> the (m q))"
proof (cases item rule: rev_cases)
  case Nil
  then show ?thesis
    by (simp add: computePreviousMetadata_def ancestors_def)
next
  case (snoc xs x)
  then show ?thesis
    by (simp add: computePreviousMetadata_def ancestors_snoc walkUp_find)
qed

lemma find_first:
  "k < length ps \<Longrightarrow> P (ps ! k) \<Longrightarrow> \<forall>j<k. \<not> P (ps ! j) \<Longrightarrow> find P ps = Some (ps ! k)"
proof (induction ps arbitrary: k)
  case Nil
  then show ?case by simp
next
  case (Cons p ps)
  show ?case
  proof (cases k)
    case 0
    then show ?thesis using Cons.prems by simp
  next
    case (Suc k')
    have np: "\<not> P p"
      using Cons.prems(3) Suc by auto
    have "find P ps = Some (ps ! k')"
    proof (rule Cons.IH)
      show "k' < length ps" using Cons.prems(1) Suc by simp
      show "P (ps ! k')" using Cons.prems(2) Suc by simp
      show "\<forall>j<k'. \<not> P (ps ! j)"
      proof (intro allI impI)
        fix j assume "j < k'"
        then have "Suc j < k" using Suc by simp
        then have "\<not> P ((p # ps) ! Suc j)" using Cons.prems(3) by blast
        then show "\<not> P (ps ! j)" by simp
      qed
    qed
    then show ?thesis using np Suc by simp
  qed
qed

lemma find_none: "\<forall>p\<in>set ps. \<not> P p \<Longrightarrow> find P ps = None"
  by (induction ps) auto

lemma test_ancestors:
  "ancestors test_entry = [test_level2, test_level1, test_level0, []]"
  "ancestors test_rootEntry = [[]]"
  "ancestors test_level0 = [[]]"
  by (simp_all add: ancestors_def test_entry_def test_rootEntry_def test_level0_def
      test_level1_def test_level2_def upt_rec)

text \<open>The six rows of the table of \<open>runComputeParentPermissionsTest\<close>.\<close>

lemma test_computeParentPermissions:
  "computePreviousMetadata test_rootEntry Map.empty = Metadata_zero"
  "computePreviousMetadata test_level0 Map.empty = Metadata_zero"
  "computePreviousMetadata test_entry perms_direct_parent = test_md"
  "computePreviousMetadata test_entry perms_top_level_parent = test_md"
  "computePreviousMetadata test_entry perms_all_inherited = Metadata_zero"
  "computePreviousMetadata test_entry perms_multiple_custom = test_md"
  unfolding computePreviousMetadata_find test_ancestors
  by (simp_all add: defers_def
      perms_direct_parent_def perms_top_level_parent_def perms_all_inherited_def
      perms_multiple_custom_def test_level0_def test_level1_def test_level2_def
      test_md_def test_metadata2_def test_inherited_def)

text \<open>
  Claim C4.  Let the ancestors of an item be its parent, the parent's parent and so on
  down to the root, nearest first.  If the \<open>k\<close>-th ancestor has a stored record whose
  sharing mode is not inherited, and every nearer ancestor has a record with the mode
  inherited or no record, then \<open>computePreviousMetadata\<close> returns the record of the
  \<open>k\<close>-th ancestor.  If every ancestor has a record with the mode inherited or no record,
  it returns the empty metadata.
\<close>

theorem C4_nearest_ancestor:
  "(k < length (ancestors item) \<and> m (ancestors item ! k) = Some md \<and>
      SharingMode md \<noteq> SharingModeInherited \<and> (\<forall>j<k. defers m (ancestors item ! j)) \<longrightarrow>
      computePreviousMetadata item m = md) \<and>
   ((\<forall>p\<in>set (ancestors item). defers m p) \<longrightarrow> computePreviousMetadata item m = Metadata_zero)"
proof (intro conjI impI)
  assume h: "k < length (ancestors item) \<and> m (ancestors item ! k) = Some md \<and>
      SharingMode md \<noteq> SharingModeInherited \<and> (\<forall>j<k. defers m (ancestors item ! j))"
  then have nd: "\<not> defers m (ancestors item ! k)"
    by (simp add: defers_def)
  have "find (\<lambda>q. \<not> defers m q) (ancestors item) = Some (ancestors item ! k)"
    using h nd by (intro find_first) auto
  then show "computePreviousMetadata item m = md"
    using h by (simp add: computePreviousMetadata_find)
next
  assume "\<forall>p\<in>set (ancestors item). defers m p"
  then have "find (\<lambda>q. \<not> defers m q) (ancestors item) = None"
    by (intro find_none) auto
  then show "computePreviousMetadata item m = Metadata_zero"
    by (simp add: computePreviousMetadata_find)
qed

theorem C4_nearest_ancestor_witness:
  "computePreviousMetadata test_entry perms_multiple_custom = test_md \<and>
   computePreviousMetadata test_entry perms_all_inherited = Metadata_zero"
proof -
  have k: "(1::nat) < length (ancestors test_entry)" "ancestors test_entry ! 1 = test_level1"
    by (simp_all add: test_ancestors)
  have s: "perms_multiple_custom test_level1 = Some test_md"
    "SharingMode test_md \<noteq> SharingModeInherited"
    by (simp_all add: perms_multiple_custom_def test_level0_def test_level1_def test_md_def)
  have n: "\<forall>j<(1::nat). defers perms_multiple_custom (ancestors test_entry ! j)"
    by (simp add: test_ancestors defers_def perms_multiple_custom_def test_level0_def
        test_level1_def test_level2_def test_inherited_def)
  have a: "\<forall>p\<in>set (ancestors test_entry). defers perms_all_inherited p"
    by (simp add: test_ancestors defers_def perms_all_inherited_def test_level0_def
        test_level1_def test_level2_def test_inherited_def)
  have "computePreviousMetadata test_entry perms_multiple_custom = test_md"
    using C4_nearest_ancestor [of 1 test_entry perms_multiple_custom test_md] k s n by simp
  moreover have "computePreviousMetadata test_entry perms_all_inherited = Metadata_zero"
    using C4_nearest_ancestor [of 0 test_entry perms_all_inherited test_md] a by blast
  ultimately show ?thesis by simp
qed

section \<open>The URL cache: the test cases and folder records\<close>

lemma test_newURLCache:
  "newURLCache ''drive1'' [] (3600 * second) (Some pages) = Inr (test_cache pages)"
  by (simp add: newURLCache_def test_cache_def second_def)

text \<open>
  The case \<open>folder item\<close> of \<open>TestGetItemProperties\<close>: every caller asks for the id \<open>2\<close> of
  the folder and gets an error, and the cache passes the \<open>cacheAssert\<close> of the case.  The
  callers are three calls one after the other, within the hour of the refresh interval.
\<close>

lemma test_folder_item:
  "fst (callers updateCache [(1001, ''2''), (1002, ''2''), (1003, ''2'')] (test_cache pages_folder_item)) =
      [Inl (ErrItemNotFound ''2''), Inl (ErrItemNotFound ''2''), Inl (ErrItemNotFound ''2'')] \<and>
   cacheAssert_refreshed 1
     (snd (callers updateCache [(1001, ''2''), (1002, ''2''), (1003, ''2'')] (test_cache pages_folder_item)))
     1000"
  by (simp add: getItemProperties_with_def needsRefresh_def refreshCache_def readCache_def
      test_cache_def pages_folder_item_def fileItem_def driveItem_def propsOf_def
      cacheAssert_refreshed_def second_def)

text \<open>
  With the collector that follows section 4.2 word for word the same callers leave a
  cache that fails the \<open>cacheAssert\<close> of the case.
\<close>

lemma test_folder_item_spec:
  "\<not> cacheAssert_refreshed 1
     (snd (callers updateCache_spec [(1001, ''2''), (1002, ''2''), (1003, ''2'')] (test_cache pages_folder_item)))
     1000"
  by (simp add: getItemProperties_with_def needsRefresh_def refreshCache_def readCache_def
      test_cache_def pages_folder_item_def fileItem_def driveItem_def propsOf_def
      cacheAssert_refreshed_def second_def)

text \<open>The cases \<open>multi-page delta query error\<close> and \<open>deleted items\<close>.\<close>

lemma test_delta_query_error:
  "fst (callers updateCache [(1001, ''1''), (1002, ''2''), (1003, ''1'')] (test_cache pages_delta_query_error)) =
      [Inl (ErrPage ''delta query error''), Inl (ErrPage ''delta query error''),
       Inl (ErrPage ''delta query error'')] \<and>
   cacheAssert_unpopulated
     (snd (callers updateCache [(1001, ''1''), (1002, ''2''), (1003, ''1'')] (test_cache pages_delta_query_error)))"
  by (simp add: getItemProperties_with_def needsRefresh_def refreshCache_def readCache_def
      test_cache_def pages_delta_query_error_def fileItem_def propsOf_def
      cacheAssert_unpopulated_def second_def)

lemma test_deleted_items:
  "fst (callers updateCache [(1001, ''1''), (1002, ''2'')] (test_cache pages_deleted_items)) =
      [Inr \<lparr>downloadURL = [], isDeleted = True\<rparr>,
       Inr \<lparr>downloadURL = ''https://dummy2.com'', isDeleted = False\<rparr>] \<and>
   cacheAssert_refreshed 2
     (snd (callers updateCache [(1001, ''1''), (1002, ''2'')] (test_cache pages_deleted_items)))
     1000"
  by (simp add: getItemProperties_with_def needsRefresh_def refreshCache_def readCache_def
      test_cache_def pages_deleted_items_def fileItem_def propsOf_def
      cacheAssert_refreshed_def second_def)

text \<open>
  The cases \<open>duplicate items with potentially new urls\<close>, \<open>single item in cache\<close> and
  \<open>item not found in cache\<close> (the last two on the same page).
\<close>

lemma test_duplicate_items:
  "fst (callers updateCache [(1001, ''1''), (1002, ''2''), (1003, ''3'')] (test_cache pages_duplicate_items)) =
      [Inr \<lparr>downloadURL = ''https://test1.com'', isDeleted = False\<rparr>,
       Inr \<lparr>downloadURL = ''https://test2.com'', isDeleted = False\<rparr>,
       Inr \<lparr>downloadURL = ''https://dummy3.com'', isDeleted = False\<rparr>] \<and>
   cacheAssert_refreshed 3
     (snd (callers updateCache [(1001, ''1''), (1002, ''2''), (1003, ''3'')] (test_cache pages_duplicate_items)))
     1000"
  by (simp add: getItemProperties_with_def needsRefresh_def refreshCache_def readCache_def
      test_cache_def pages_duplicate_items_def fileItem_def propsOf_def
      cacheAssert_refreshed_def second_def)

lemma test_single_item:
  "fst (callers updateCache [(1001, ''1''), (1002, ''1'')] (test_cache pages_single_item)) =
      [Inr \<lparr>downloadURL = ''https://dummy1.com'', isDeleted = False\<rparr>,
       Inr \<lparr>downloadURL = ''https://dummy1.com'', isDeleted = False\<rparr>] \<and>
   cacheAssert_refreshed 1
     (snd (callers updateCache [(1001, ''1''), (1002, ''1'')] (test_cache pages_single_item))) 1000"
  by (simp add: getItemProperties_with_def needsRefresh_def refreshCache_def readCache_def
      test_cache_def pages_single_item_def fileItem_def propsOf_def
      cacheAssert_refreshed_def second_def)

lemma test_item_not_found:
  "fst (callers updateCache [(1001, ''2''), (1002, ''2'')] (test_cache pages_single_item)) =
      [Inl (ErrItemNotFound ''2''), Inl (ErrItemNotFound ''2'')] \<and>
   cacheAssert_refreshed 1
     (snd (callers updateCache [(1001, ''2''), (1002, ''2'')] (test_cache pages_single_item))) 1000"
  by (simp add: getItemProperties_with_def needsRefresh_def refreshCache_def readCache_def
      test_cache_def pages_single_item_def fileItem_def propsOf_def
      cacheAssert_refreshed_def second_def)

text \<open>
  Claim C5 as stated fails on the pages of the case \<open>folder item\<close>, which hold a file and
  a folder.  On the first refresh of the cache a caller that asks for the file's id gets
  its properties, not an error; and after a caller has asked for the folder's id the
  cache holds the entry of the file, its last refresh time is the time of the call and
  one delta query is counted.
\<close>

theorem C5_folder_counterexample:
  "fst (getItemProperties 1001 ''1'' (test_cache pages_folder_item)) =
     Inr \<lparr>downloadURL = ''https://dummy1.com'', isDeleted = False\<rparr> \<and>
   idToProps (snd (getItemProperties 1001 ''2'' (test_cache pages_folder_item))) =
     [(''1'', \<lparr>downloadURL = ''https://dummy1.com'', isDeleted = False\<rparr>)] \<and>
   lastRefreshTime (snd (getItemProperties 1001 ''2'' (test_cache pages_folder_item))) = 1001 \<and>
   deltaQueryCount (snd (getItemProperties 1001 ''2'' (test_cache pages_folder_item))) = 1"
  by (simp add: getItemProperties_def getItemProperties_with_def needsRefresh_def refreshCache_def
      readCache_def test_cache_def pages_folder_item_def fileItem_def driveItem_def propsOf_def)

lemma updateCache_keys:
  "\<exists>ps'. updateCache ps its = Inr ps' \<and>
     fst ` set ps' = fst ` set ps \<union> di_id ` {it \<in> set its. di_kind it = File}"
proof (induction its arbitrary: ps)
  case Nil
  show ?case by simp
next
  case (Cons it its)
  show ?case
  proof (cases "di_kind it = File")
    case True
    from Cons.IH [of "AList.update (di_id it) (propsOf it) ps"] obtain ps' where
      "updateCache (AList.update (di_id it) (propsOf it) ps) its = Inr ps'"
      "fst ` set ps' = fst ` set (AList.update (di_id it) (propsOf it) ps) \<union>
         di_id ` {it \<in> set its. di_kind it = File}"
      by blast
    then show ?thesis
      using True by (auto simp: AList.dom_update)
  next
    case False
    from Cons.IH [of ps] obtain ps' where
      "updateCache ps its = Inr ps'"
      "fst ` set ps' = fst ` set ps \<union> di_id ` {it \<in> set its. di_kind it = File}"
      by blast
    then show ?thesis
      using False by auto
  qed
qed

lemma collectItems_keys:
  "\<forall>pg\<in>set pages. PageErr pg = None \<Longrightarrow>
   \<exists>ps'. collectItems updateCache pages ps = Inr ps' \<and>
     fst ` set ps' = fst ` set ps \<union> set (fileIDs pages)"
proof (induction pages arbitrary: ps)
  case Nil
  show ?case by (simp add: fileIDs_def)
next
  case (Cons pg pages)
  from updateCache_keys [of ps "Values pg"] obtain ps1 where
    u: "updateCache ps (Values pg) = Inr ps1"
       "fst ` set ps1 = fst ` set ps \<union> di_id ` {it \<in> set (Values pg). di_kind it = File}"
    by blast
  have "\<forall>pg\<in>set pages. PageErr pg = None"
    using Cons.prems by simp
  from Cons.IH [OF this, of ps1] obtain ps' where
    c: "collectItems updateCache pages ps1 = Inr ps'"
       "fst ` set ps' = fst ` set ps1 \<union> set (fileIDs pages)"
    by blast
  have "collectItems updateCache (pg # pages) ps = Inr ps'"
    using Cons.prems u c by simp
  moreover have "fst ` set ps' = fst ` set ps \<union> set (fileIDs (pg # pages))"
    using u c by (auto simp: fileIDs_def)
  ultimately show ?case by blast
qed

text \<open>
  Claim C5, as amended.  A folder record of the enumeration is passed over: it gets no
  entry and makes no error.  On the first refresh of a cache (it holds no entry) whose
  pages all answer without an error, the call of \<open>getItemProperties\<close> that refreshes
  commits an entry for exactly the ids of the file records, records the time of the call
  as the last refresh time and counts one delta query; and it answers with an error
  exactly when the id asked for is the id of no file record, as the id of a folder is.
\<close>

theorem C5_folder_records_passed_over:
  assumes "\<forall>pg\<in>set (itemPager uc). PageErr pg = None"
    and "idToProps uc = []"
  shows "lastRefreshTime (snd (getItemProperties now i uc)) = now \<and>
         deltaQueryCount (snd (getItemProperties now i uc)) = Suc (deltaQueryCount uc) \<and>
         fst ` set (idToProps (snd (getItemProperties now i uc))) = set (fileIDs (itemPager uc)) \<and>
         ((\<exists>e. fst (getItemProperties now i uc) = Inl e) \<longleftrightarrow> i \<notin> set (fileIDs (itemPager uc)))"
proof -
  from collectItems_keys [OF assms(1), of "idToProps uc"] obtain ps' where
    c: "collectItems updateCache (itemPager uc) (idToProps uc) = Inr ps'"
       "fst ` set ps' = set (fileIDs (itemPager uc))"
    using assms(2) by auto
  let ?uc' = "uc\<lparr>idToProps := ps', lastRefreshTime := now, deltaQueryCount := Suc (deltaQueryCount uc)\<rparr>"
  have g: "getItemProperties now i uc = (readCache ?uc' i, ?uc')"
    using c(1) assms(2)
    by (simp add: getItemProperties_def getItemProperties_with_def needsRefresh_def refreshCache_def)
  have r: "(\<exists>e. readCache ?uc' i = Inl e) \<longleftrightarrow> i \<notin> fst ` set ps'"
  proof (cases "map_of ps' i")
    case None
    have "i \<notin> fst ` set ps'"
      using None by (simp add: map_of_eq_None_iff)
    moreover have "readCache ?uc' i = Inl (ErrItemNotFound i)"
      by (simp add: readCache_def None)
    ultimately show ?thesis by blast
  next
    case (Some p)
    then have "i \<in> fst ` set ps'"
      by (metis map_of_eq_None_iff option.distinct(1))
    then show ?thesis
      using Some by (simp add: readCache_def)
  qed
  show ?thesis
    using g r c(2) by simp
qed

theorem C5_folder_records_passed_over_witness:
  "lastRefreshTime (snd (getItemProperties 1001 ''2'' (test_cache pages_folder_item))) = 1001 \<and>
   deltaQueryCount (snd (getItemProperties 1001 ''2'' (test_cache pages_folder_item))) = 1 \<and>
   fst ` set (idToProps (snd (getItemProperties 1001 ''2'' (test_cache pages_folder_item)))) = {''1''} \<and>
   (\<exists>e. fst (getItemProperties 1001 ''2'' (test_cache pages_folder_item)) = Inl e)"
proof -
  have p: "\<forall>pg\<in>set (itemPager (test_cache pages_folder_item)). PageErr pg = None"
    by (simp add: test_cache_def pages_folder_item_def)
  have e: "idToProps (test_cache pages_folder_item) = []"
    "deltaQueryCount (test_cache pages_folder_item) = 0"
    by (simp_all add: test_cache_def)
  have f: "fileIDs (itemPager (test_cache pages_folder_item)) = [''1'']"
    by (simp add: fileIDs_def test_cache_def pages_folder_item_def fileItem_def driveItem_def)
  show ?thesis
    using C5_folder_records_passed_over [OF p e(1), of 1001 "''2''"] e(2) f by simp
qed


end
